theory Spec2Isabelle
  imports Main "HOL-Library.Sublist"
begin

section \<open>Python strings\<close>

text \<open>
  A Python \<open>str\<close> is a sequence of Unicode code points; a code point is a natural
  number. \<open>u\<close> reads an ASCII literal as such a sequence.
\<close>

type_synonym ustr = "nat list"

definition u :: "string \<Rightarrow> ustr" where
  "u s = map of_char s"

text \<open>
  \<open>str.isspace\<close> of one code point: the characters CPython lists as whitespace
  (bidirectional class WS, B or S, or category Zs).
\<close>

definition isspace :: "nat \<Rightarrow> bool" where
  "isspace c \<longleftrightarrow>
     (9 \<le> c \<and> c \<le> 13) \<or> (28 \<le> c \<and> c \<le> 32) \<or> c = 133 \<or> c = 160 \<or> c = 5760 \<or>
     (8192 \<le> c \<and> c \<le> 8202) \<or> c = 8232 \<or> c = 8233 \<or> c = 8239 \<or> c = 8287 \<or> c = 12288"

definition lstrip :: "ustr \<Rightarrow> ustr" where
  "lstrip s = dropWhile isspace s"

definition rstrip :: "ustr \<Rightarrow> ustr" where
  "rstrip s = rev (dropWhile isspace (rev s))"

definition strip :: "ustr \<Rightarrow> ustr" where
  "strip s = rstrip (lstrip s)"

text \<open>\<open>s.rstrip(":")\<close>: every trailing colon goes.\<close>

definition rstrip_colon :: "ustr \<Rightarrow> ustr" where
  "rstrip_colon s = rev (dropWhile (\<lambda>c. c = 58) (rev s))"

definition endswith :: "ustr \<Rightarrow> ustr \<Rightarrow> bool" where
  "endswith s x = suffix x s"

definition startswith :: "ustr \<Rightarrow> ustr \<Rightarrow> bool" where
  "startswith s x = prefix x s"

text \<open>
  \<open>str.splitlines()\<close>: a line ends at \<open>\n\<close>, \<open>\r\<close>, \<open>\r\n\<close>, \<open>\v\<close>, \<open>\f\<close>,
  \<open>\x1c\<close>, \<open>\x1d\<close>, \<open>\x1e\<close>, \<open>\x85\<close>, U+2028 or U+2029; the terminators are dropped
  and a text that ends with a terminator has no empty last line.
\<close>

definition linebreak :: "nat \<Rightarrow> bool" where
  "linebreak c \<longleftrightarrow>
     (10 \<le> c \<and> c \<le> 13) \<or> (28 \<le> c \<and> c \<le> 30) \<or> c = 133 \<or> c = 8232 \<or> c = 8233"

fun after_break :: "ustr \<Rightarrow> ustr" where
  "after_break (a # b # r) = (if a = 13 \<and> b = 10 then r else b # r)"
| "after_break [a] = []"
| "after_break [] = []"

lemma length_after_break: "length (after_break s) \<le> length s - 1"
  by (induction s rule: after_break.induct) auto

function splitlines :: "ustr \<Rightarrow> ustr list" where
  "splitlines s =
     (if s = [] then []
      else takeWhile (\<lambda>c. \<not> linebreak c) s #
           splitlines (after_break (dropWhile (\<lambda>c. \<not> linebreak c) s)))"
  by pat_completeness auto
termination
proof (relation "measure length")
  show "wf (measure length)" by simp
next
  fix s :: ustr
  assume "s \<noteq> []"
  then have "0 < length s" by simp
  moreover have "length (dropWhile (\<lambda>c. \<not> linebreak c) s) \<le> length s"
    by (rule length_dropWhile_le)
  moreover have "length (after_break (dropWhile (\<lambda>c. \<not> linebreak c) s))
      \<le> length (dropWhile (\<lambda>c. \<not> linebreak c) s) - 1"
    by (rule length_after_break)
  ultimately have "length (after_break (dropWhile (\<lambda>c. \<not> linebreak c) s)) < length s"
    by arith
  then show "(after_break (dropWhile (\<lambda>c. \<not> linebreak c) s), s) \<in> measure length"
    by simp
qed

declare splitlines.simps [simp del]

text \<open>\<open>str.split()\<close> with no argument: the maximal runs of non-whitespace.\<close>

function split_ws :: "ustr \<Rightarrow> ustr list" where
  "split_ws s =
     (if dropWhile isspace s = [] then []
      else takeWhile (\<lambda>c. \<not> isspace c) (dropWhile isspace s) #
           split_ws (dropWhile (\<lambda>c. \<not> isspace c) (dropWhile isspace s)))"
  by pat_completeness auto
termination
proof (relation "measure length")
  show "wf (measure length)" by simp
next
  fix s :: ustr
  assume ne: "dropWhile isspace s \<noteq> []"
  then obtain c r where cr: "dropWhile isspace s = c # r"
    by (cases "dropWhile isspace s") auto
  then have "\<not> isspace c"
    using hd_dropWhile [of isspace s] ne by auto
  then have "length (dropWhile (\<lambda>c. \<not> isspace c) (c # r)) \<le> length r"
    by (simp add: length_dropWhile_le)
  moreover have "length (c # r) \<le> length s"
    using length_dropWhile_le [of isspace s] cr by simp
  ultimately show "(dropWhile (\<lambda>c. \<not> isspace c) (dropWhile isspace s), s) \<in> measure length"
    using cr by simp
qed

declare split_ws.simps [simp del]

text \<open>
  \<open>str.expandtabs(tabsize)\<close>: a tab becomes the spaces up to the next tab stop; the
  column restarts after \<open>\n\<close> and \<open>\r\<close>.
\<close>

fun expandtabs_from :: "nat \<Rightarrow> nat \<Rightarrow> ustr \<Rightarrow> ustr" where
  "expandtabs_from tabsize j [] = []"
| "expandtabs_from tabsize j (c # s) =
     (if c = 9 then
        (if 0 < tabsize
         then replicate (tabsize - j mod tabsize) 32 @
              expandtabs_from tabsize (j + (tabsize - j mod tabsize)) s
         else expandtabs_from tabsize j s)
      else c # expandtabs_from tabsize (if c = 10 \<or> c = 13 then 0 else j + 1) s)"

definition expandtabs :: "nat \<Rightarrow> ustr \<Rightarrow> ustr" where
  "expandtabs tabsize s = expandtabs_from tabsize 0 s"

subsection \<open>The tables of the Unicode database and the libraries' wording\<close>

text \<open>
  The source calls \<open>str.isalnum\<close>, \<open>str.upper\<close>, \<open>str.lower\<close> and \<open>str.title\<close>, and
  its word wrapper's pattern uses the classes \<open>\w\<close> and \<open>\d\<close>. They are table look-ups
  of the interpreter and not code of the repository: the model takes them as a parameter.
  So is the text of an exception, \<open>str(e)\<close>.
\<close>

datatype exn =
  FPDFUnicodeEncodingException nat
| FPDFException
| UpstreamException ustr

record pylib =
  isalnum :: "nat \<Rightarrow> bool"
  isdecimal :: "nat \<Rightarrow> bool"
  upper :: "ustr \<Rightarrow> ustr"
  lower :: "ustr \<Rightarrow> ustr"
  title :: "ustr \<Rightarrow> ustr"
  exn_str :: "exn \<Rightarrow> ustr"

text \<open>
  One instance, for running the model: the tables restricted to ASCII (a code point
  from 128 on counts as a caseless symbol, as the bullet U+2022 and the emoji are), and
  a message for the backend's exception that names the rejected character.
\<close>

definition ascii_isupper :: "nat \<Rightarrow> bool" where
  "ascii_isupper c \<longleftrightarrow> 65 \<le> c \<and> c \<le> 90"

definition ascii_islower :: "nat \<Rightarrow> bool" where
  "ascii_islower c \<longleftrightarrow> 97 \<le> c \<and> c \<le> 122"

definition ascii_isdigit :: "nat \<Rightarrow> bool" where
  "ascii_isdigit c \<longleftrightarrow> 48 \<le> c \<and> c \<le> 57"

definition ascii_toupper :: "nat \<Rightarrow> nat" where
  "ascii_toupper c = (if ascii_islower c then c - 32 else c)"

definition ascii_tolower :: "nat \<Rightarrow> nat" where
  "ascii_tolower c = (if ascii_isupper c then c + 32 else c)"

fun ascii_title :: "bool \<Rightarrow> ustr \<Rightarrow> ustr" where
  "ascii_title previous_is_cased [] = []"
| "ascii_title previous_is_cased (c # s) =
     (if ascii_isupper c \<or> ascii_islower c
      then (if previous_is_cased then ascii_tolower c else ascii_toupper c) # ascii_title True s
      else c # ascii_title False s)"

fun ascii_exn_str :: "exn \<Rightarrow> ustr" where
  "ascii_exn_str (FPDFUnicodeEncodingException c) =
     u ''Character '' @ [34, c, 34] @
     u '' is outside the range of characters supported by the font used''"
| "ascii_exn_str FPDFException =
     u ''Not enough horizontal space to render a single character''"
| "ascii_exn_str (UpstreamException m) = m"

definition ascii_pylib :: pylib where
  "ascii_pylib =
     \<lparr> isalnum = (\<lambda>c. ascii_isdigit c \<or> ascii_isupper c \<or> ascii_islower c),
       isdecimal = ascii_isdigit,
       upper = map ascii_toupper,
       lower = map ascii_tolower,
       title = ascii_title False,
       exn_str = ascii_exn_str \<rparr>"

section \<open>textwrap.TextWrapper\<close>

text \<open>
  The standard library's wrapper, as the source configures it:
  \<open>TextWrapper(width=90, replace_whitespace=False)\<close>, every other option at its
  default (tabs expanded to stops of 8, whitespace dropped at the edges of a line,
  long words broken, breaks allowed after hyphens, no indent, no line limit).
\<close>

definition tw_whitespace :: "nat \<Rightarrow> bool" where
  "tw_whitespace c \<longleftrightarrow> (9 \<le> c \<and> c \<le> 13) \<or> c = 32"

definition is_word :: "pylib \<Rightarrow> nat \<Rightarrow> bool" where
  "is_word L c \<longleftrightarrow> isalnum L c \<or> c = 95"

definition word_punct :: "pylib \<Rightarrow> nat \<Rightarrow> bool" where
  "word_punct L c \<longleftrightarrow>
     is_word L c \<or> c = 33 \<or> c = 34 \<or> c = 39 \<or> c = 38 \<or> c = 46 \<or> c = 44 \<or> c = 63"

definition letter :: "pylib \<Rightarrow> nat \<Rightarrow> bool" where
  "letter L c \<longleftrightarrow> is_word L c \<and> \<not> isdecimal L c"

definition nth_is :: "(nat \<Rightarrow> bool) \<Rightarrow> ustr \<Rightarrow> nat \<Rightarrow> bool" where
  "nth_is P s n \<longleftrightarrow> n < length s \<and> P (s ! n)"

text \<open>
  The pieces of \<open>wordsep_re\<close>. \<open>b\<close> is the text before the position, nearest character
  first (what a look-behind reads), \<open>r\<close> the text from the position on.
  \<open>emdash_ahead\<close> is \<open>(?=-{2,}\w)\<close>; \<open>hyphen_break\<close> is the end of a hyphenated part,
  \<open>-(?:(?<=lt{2}-)|(?<=lt-lt-))(?=lt-?lt)\<close>, tried where \<open>r\<close> starts with the hyphen.
\<close>

definition emdash_ahead :: "pylib \<Rightarrow> ustr \<Rightarrow> bool" where
  "emdash_ahead L r \<longleftrightarrow>
     2 \<le> length (takeWhile (\<lambda>c. c = 45) r) \<and>
     nth_is (is_word L) (dropWhile (\<lambda>c. c = 45) r) 0"

definition hyphen_break :: "pylib \<Rightarrow> ustr \<Rightarrow> ustr \<Rightarrow> bool" where
  "hyphen_break L b r \<longleftrightarrow>
     nth_is (\<lambda>c. c = 45) r 0 \<and>
     ((nth_is (letter L) b 1 \<and> nth_is (letter L) b 0) \<or>
      (nth_is (letter L) b 2 \<and> nth_is (\<lambda>c. c = 45) b 1 \<and> nth_is (letter L) b 0)) \<and>
     nth_is (letter L) r 1 \<and>
     ((nth_is (\<lambda>c. c = 45) r 2 \<and> nth_is (letter L) r 3) \<or> nth_is (letter L) r 2)"

text \<open>
  The third alternative, a word: \<open>[^ws]+?\<close> is lazy, so after each character the
  three ways to end are tried in the pattern's order, and the first that matches ends
  the chunk. \<open>word_end\<close> counts the characters taken after the first one.
\<close>

fun word_end :: "pylib \<Rightarrow> ustr \<Rightarrow> ustr \<Rightarrow> nat" where
  "word_end L b [] = 0"
| "word_end L b (c # r) =
     (if hyphen_break L b (c # r) then 1
      else if tw_whitespace c then 0
      else if nth_is (word_punct L) b 0 \<and> emdash_ahead L (c # r) then 0
      else Suc (word_end L (c # b) r))"

text \<open>The length of the match that starts at a position where text is left.\<close>

definition chunk_len :: "pylib \<Rightarrow> ustr \<Rightarrow> ustr \<Rightarrow> nat" where
  "chunk_len L b r =
     (if tw_whitespace (hd r) then length (takeWhile tw_whitespace r)
      else if nth_is (word_punct L) b 0 \<and> emdash_ahead L r
        then length (takeWhile (\<lambda>c. c = 45) r)
      else Suc (word_end L (hd r # b) (tl r)))"

lemma word_end_le: "word_end L b r \<le> length r"
  by (induction L b r rule: word_end.induct) auto

lemma chunk_len_pos: "r \<noteq> [] \<Longrightarrow> 0 < chunk_len L b r"
  by (cases r) (auto simp: chunk_len_def emdash_ahead_def)

lemma chunk_len_le: "r \<noteq> [] \<Longrightarrow> chunk_len L b r \<le> length r"
proof (cases r)
  case Nil
  assume "r \<noteq> []"
  with Nil show ?thesis by simp
next
  case (Cons c r')
  have "length (takeWhile tw_whitespace r) \<le> length r"
    by (rule length_takeWhile_le)
  moreover have "length (takeWhile (\<lambda>c. c = 45) r) \<le> length r"
    by (rule length_takeWhile_le)
  moreover have "Suc (word_end L (hd r # b) (tl r)) \<le> length r"
    using word_end_le [of L "c # b" r'] Cons by simp
  ultimately show ?thesis
    by (simp add: chunk_len_def)
qed

text \<open>
  \<open>wordsep_re.split(text)\<close>: every position starts a match, so the matches tile the
  text and the pieces between them are empty; \<open>_split\<close> filters the empty pieces out.
\<close>

function wordsep_split :: "pylib \<Rightarrow> ustr \<Rightarrow> ustr \<Rightarrow> ustr list" where
  "wordsep_split L b r =
     (if r = [] then []
      else take (chunk_len L b r) r #
           wordsep_split L (rev (take (chunk_len L b r) r) @ b) (drop (chunk_len L b r) r))"
  by pat_completeness auto
termination
proof (relation "measure (\<lambda>(L, b, r). length r)")
  show "wf (measure (\<lambda>(L, b, r). length r))" by simp
next
  fix L :: pylib and b r :: ustr
  assume "r \<noteq> []"
  then have "0 < chunk_len L b r" "0 < length r"
    by (simp_all add: chunk_len_pos)
  then show "((L, rev (take (chunk_len L b r) r) @ b, drop (chunk_len L b r) r), L, b, r)
      \<in> measure (\<lambda>(L, b, r). length r)"
    by simp
qed

declare wordsep_split.simps [simp del]

definition split_chunks :: "pylib \<Rightarrow> ustr \<Rightarrow> ustr list" where
  "split_chunks L s = filter (\<lambda>c. c \<noteq> []) (wordsep_split L [] (expandtabs 8 s))"

text \<open>
  \<open>_wrap_chunks\<close>. The source pops chunks off a reversed stack; here the list is in
  reading order and its head is the stack's top. \<open>is_blank c\<close> is \<open>c.strip() == ''\<close>.
\<close>

definition is_blank :: "ustr \<Rightarrow> bool" where
  "is_blank c \<longleftrightarrow> strip c = []"

text \<open>The inner loop: chunks go onto the current line while they fit.\<close>

fun fill :: "nat \<Rightarrow> nat \<Rightarrow> ustr list \<Rightarrow> ustr list \<times> ustr list" where
  "fill w cur_len [] = ([], [])"
| "fill w cur_len (c # cs) =
     (if cur_len + length c \<le> w
      then (case fill w (cur_len + length c) cs of (l, r) \<Rightarrow> (c # l, r))
      else ([], c # cs))"

text \<open>\<open>chunk.rfind('-', 0, e)\<close>: the last hyphen before index \<open>e\<close>, if there is one.\<close>

definition rfind_hyphen :: "ustr \<Rightarrow> nat \<Rightarrow> nat option" where
  "rfind_hyphen chunk e =
     (case filter (\<lambda>i. chunk ! i = 45) (rev [0..<min e (length chunk)]) of
        [] \<Rightarrow> None
      | i # _ \<Rightarrow> Some i)"

text \<open>
  \<open>_handle_long_word\<close> with \<open>break_long_words\<close> and \<open>break_on_hyphens\<close> on: where
  the chunk on top of the stack is cut.
\<close>

definition long_word_end :: "nat \<Rightarrow> nat \<Rightarrow> ustr \<Rightarrow> nat" where
  "long_word_end w cur_len chunk =
     (let space_left = (if w < 1 then 1 else w - cur_len) in
      if space_left < length chunk then
        (case rfind_hyphen chunk space_left of
           None \<Rightarrow> space_left
         | Some hyphen \<Rightarrow>
             if 0 < hyphen \<and> list_ex (\<lambda>c. c \<noteq> 45) (take hyphen chunk)
             then hyphen + 1 else space_left)
      else space_left)"

definition handle_long_word :: "nat \<Rightarrow> ustr list \<Rightarrow> ustr list \<Rightarrow> ustr list \<times> ustr list" where
  "handle_long_word w cur_line chunks =
     (let e = long_word_end w (length (concat cur_line)) (hd chunks)
      in (cur_line @ [take e (hd chunks)], drop e (hd chunks) # tl chunks))"

text \<open>
  One round of the outer loop, for a stack that is not empty: the current line's chunks
  and the stack that is left. \<open>started\<close> says that a line has been stored already.
\<close>

definition wrap_step :: "nat \<Rightarrow> bool \<Rightarrow> ustr list \<Rightarrow> ustr list \<times> ustr list" where
  "wrap_step w started chunks =
     (let chunks1 = (if is_blank (hd chunks) \<and> started then tl chunks else chunks);
          filled = fill w 0 chunks1;
          broken = (if snd filled \<noteq> [] \<and> w < length (hd (snd filled))
                    then handle_long_word w (fst filled) (snd filled) else filled);
          cur_line = fst broken
      in (if cur_line \<noteq> [] \<and> is_blank (last cur_line) then butlast cur_line else cur_line,
          snd broken))"

definition stack_size :: "ustr list \<Rightarrow> nat" where
  "stack_size chunks = sum_list (map (\<lambda>c. Suc (length c)) chunks)"

lemma fill_append: "fill w n cs = (l, r) \<Longrightarrow> cs = l @ r"
  by (induction cs arbitrary: n l r) (auto split: if_splits prod.splits)

lemma fill_empty: "fill w n (c # cs) = ([], r) \<Longrightarrow> w < n + length c"
  by (auto split: if_splits prod.splits)

lemma stack_size_append: "stack_size (l @ r) = stack_size l + stack_size r"
  by (simp add: stack_size_def)

lemma stack_size_pos: "l \<noteq> [] \<Longrightarrow> 0 < stack_size l"
  by (cases l) (simp_all add: stack_size_def)

lemma long_word_end_pos: "w < length c \<Longrightarrow> 0 < long_word_end w 0 c"
  by (auto simp: long_word_end_def Let_def split: option.splits)

lemma handle_long_word_size:
  "cs \<noteq> [] \<Longrightarrow> stack_size (snd (handle_long_word w l cs)) \<le> stack_size cs"
  by (cases cs) (simp_all add: handle_long_word_def Let_def stack_size_def)

lemma handle_long_word_less:
  assumes "cs \<noteq> []" and "w < length (hd cs)"
  shows "stack_size (snd (handle_long_word w [] cs)) < stack_size cs"
proof -
  obtain c r where cs: "cs = c # r"
    using assms(1) by (cases cs) auto
  have "0 < long_word_end w 0 c"
    using assms(2) cs by (simp add: long_word_end_pos)
  moreover have "0 < length c"
    using assms(2) cs by auto
  ultimately have "length (drop (long_word_end w 0 c) c) < length c"
    by simp
  then show ?thesis
    by (simp add: cs handle_long_word_def Let_def stack_size_def)
qed

lemma filled_size:
  assumes "cs \<noteq> []"
  shows "stack_size (snd (if snd (fill w 0 cs) \<noteq> [] \<and> w < length (hd (snd (fill w 0 cs)))
            then handle_long_word w (fst (fill w 0 cs)) (snd (fill w 0 cs))
            else fill w 0 cs)) < stack_size cs"
proof -
  obtain l r where f: "fill w 0 cs = (l, r)"
    by (cases "fill w 0 cs") auto
  then have app: "cs = l @ r"
    by (rule fill_append)
  show ?thesis
  proof (cases "l = []")
    case True
    with app have r: "r = cs" by simp
    obtain c cs' where cs: "cs = c # cs'"
      using assms by (cases cs) auto
    have "w < length c"
      using fill_empty [of w 0 c cs' r] f True cs by simp
    then show ?thesis
      using handle_long_word_less [of cs w] f True r cs by simp
  next
    case False
    then have "stack_size r < stack_size cs"
      using app stack_size_pos [of l] by (simp add: stack_size_append)
    moreover have "r \<noteq> [] \<Longrightarrow> stack_size (snd (handle_long_word w l r)) \<le> stack_size r"
      by (rule handle_long_word_size)
    ultimately show ?thesis
      using f by auto
  qed
qed

lemma wrap_step_less:
  assumes "chunks \<noteq> []"
  shows "stack_size (snd (wrap_step w started chunks)) < stack_size chunks"
proof (cases "is_blank (hd chunks) \<and> started")
  case True
  obtain c cs where cs: "chunks = c # cs"
    using assms by (cases chunks) auto
  show ?thesis
  proof (cases "cs = []")
    case True
    then show ?thesis
      using \<open>is_blank (hd chunks) \<and> started\<close> cs
      by (simp add: wrap_step_def Let_def stack_size_def)
  next
    case False
    then have "stack_size (snd (if snd (fill w 0 cs) \<noteq> [] \<and> w < length (hd (snd (fill w 0 cs)))
            then handle_long_word w (fst (fill w 0 cs)) (snd (fill w 0 cs))
            else fill w 0 cs)) < stack_size cs"
      by (rule filled_size)
    moreover have "stack_size cs < stack_size chunks"
      by (simp add: cs stack_size_def)
    ultimately show ?thesis
      using True cs by (simp add: wrap_step_def Let_def)
  qed
next
  case False
  then have "(if is_blank (hd chunks) \<and> started then tl chunks else chunks) = chunks"
    by auto
  then show ?thesis
    using filled_size [OF assms, of w] by (simp only: wrap_step_def Let_def snd_conv)
qed

function wrap_loop :: "nat \<Rightarrow> bool \<Rightarrow> ustr list \<Rightarrow> ustr list" where
  "wrap_loop w started chunks =
     (if chunks = [] then []
      else if fst (wrap_step w started chunks) \<noteq> []
        then concat (fst (wrap_step w started chunks)) #
             wrap_loop w True (snd (wrap_step w started chunks))
      else wrap_loop w started (snd (wrap_step w started chunks)))"
  by pat_completeness auto
termination
  by (relation "measure (\<lambda>(w, started, chunks). stack_size chunks)")
     (simp_all add: wrap_step_less)

declare wrap_loop.simps [simp del]

text \<open>
  \<open>wrapper.wrap(text)\<close> for the source's \<open>wrapper\<close>: the width is 90, so the check that
  raises \<open>ValueError\<close> for a width of 0 or less passes.
\<close>

definition wrapper_wrap :: "pylib \<Rightarrow> ustr \<Rightarrow> ustr list" where
  "wrapper_wrap L s = wrap_loop 90 False (split_chunks L s)"

section \<open>The rendering backend\<close>

text \<open>
  The backend (class \<open>FPDF\<close>) is a library. The model keeps what the source asks of it:
  the sequence of draw instructions, in order; this sequence is the page content. Page
  breaks and the footer the backend calls at each of them are the backend's own work.
  The fonts the source selects (Helvetica, Arial) are core fonts, which the backend
  encodes as Latin-1: a text with a code point from 256 on is rejected with an
  exception, as \<open>normalize_text\<close> does.
\<close>

datatype font_family = Helvetica | Arial

datatype font_style = Regular | Bold | Italic

datatype align = AlignDefault | AlignC

datatype draw =
  SetAutoPageBreak bool nat
| AddPage
| SetFont font_family font_style nat
| SetTextColor nat nat nat
| MultiCell nat nat ustr align
| Cell nat nat ustr bool align
| Ln nat

type_synonym pdf = "draw list"

text \<open>
  The horizontal position of the cursor, in millimetres from the left margin, follows
  from the instructions so far. A new page and a line break put it at the left margin.
  A cell moves it to the right by the cell's width, or to the left margin of the next
  line when the cell is drawn with \<open>ln=True\<close>. A multi-cell leaves it at the right edge
  of the cell (the backend's default, \<open>new_x=RIGHT\<close>); a width of 0 stands for the room
  up to the right margin, so after such a cell the cursor is at the right margin,
  \<open>epw\<close> millimetres from the left one (an A4 page with margins of 10).
\<close>

definition epw :: nat where
  "epw = 190"

fun advance :: "nat \<Rightarrow> draw \<Rightarrow> nat" where
  "advance x AddPage = 0"
| "advance x (Ln h) = 0"
| "advance x (MultiCell w h txt al) = (if w = 0 then epw else x + w)"
| "advance x (Cell w h txt newline al) =
     (if newline then 0 else if w = 0 then epw else x + w)"
| "advance x (SetAutoPageBreak auto margin) = x"
| "advance x (SetFont family style pt) = x"
| "advance x (SetTextColor r g b) = x"

definition cursor :: "pdf \<Rightarrow> nat" where
  "cursor pdf = foldl advance 0 pdf"

definition latin1 :: "nat \<Rightarrow> bool" where
  "latin1 c \<longleftrightarrow> c < 256"

definition normalize_text :: "ustr \<Rightarrow> exn + ustr" where
  "normalize_text txt =
     (case find (\<lambda>c. \<not> latin1 c) txt of
        None \<Rightarrow> Inr txt
      | Some c \<Rightarrow> Inl (FPDFUnicodeEncodingException c))"

text \<open>
  \<open>multi_cell\<close> checks the encoding and then breaks the text into lines. With a width
  of 0 and the cursor at the right margin or beyond there is no room for a single
  character, and a text that is not empty is rejected with \<open>FPDFException\<close>; an empty
  text is drawn as one empty cell.
\<close>

definition multi_cell :: "nat \<Rightarrow> nat \<Rightarrow> ustr \<Rightarrow> align \<Rightarrow> pdf \<Rightarrow> exn + pdf" where
  "multi_cell w h txt al pdf =
     (case normalize_text txt of
        Inl e \<Rightarrow> Inl e
      | Inr t \<Rightarrow>
          if t \<noteq> [] \<and> w = 0 \<and> epw \<le> cursor pdf then Inl FPDFException
          else Inr (pdf @ [MultiCell w h t al]))"

text \<open>\<open>cell\<close> does not break lines: it checks the encoding only.\<close>

definition cell :: "nat \<Rightarrow> nat \<Rightarrow> ustr \<Rightarrow> bool \<Rightarrow> align \<Rightarrow> pdf \<Rightarrow> exn + pdf" where
  "cell w h txt newline al pdf =
     (case normalize_text txt of
        Inl e \<Rightarrow> Inl e
      | Inr t \<Rightarrow> Inr (pdf @ [Cell w h t newline al]))"

section \<open>The clock and the files\<close>

text \<open>
  What a call reads and writes outside its arguments: the clock (\<open>datetime.now()\<close>;
  \<open>clock w n\<close> is the \<open>n\<close>-th reading, \<open>ticks w\<close> counts the readings taken) and the
  documents saved so far, by path.
\<close>

record datetime =
  year :: nat
  month :: nat
  day :: nat
  hour :: nat
  minute :: nat
  second :: nat

record world =
  files :: "ustr \<rightharpoonup> pdf"
  clock :: "nat \<Rightarrow> datetime"
  ticks :: nat

definition now :: "world \<Rightarrow> datetime \<times> world" where
  "now w = (clock w (ticks w), w\<lparr>ticks := Suc (ticks w)\<rparr>)"

definition pdf_output :: "ustr \<Rightarrow> pdf \<Rightarrow> world \<Rightarrow> world" where
  "pdf_output path pdf w = w\<lparr>files := (files w)(path \<mapsto> pdf)\<rparr>"

text \<open>\<open>strftime\<close>: \<open>%Y\<close> is four digits, \<open>%m %d %H %M %S\<close> two, \<open>%B\<close> the month's name.\<close>

definition digit :: "nat \<Rightarrow> nat" where
  "digit n = 48 + n mod 10"

definition pad2 :: "nat \<Rightarrow> ustr" where
  "pad2 n = [digit (n div 10), digit n]"

definition pad4 :: "nat \<Rightarrow> ustr" where
  "pad4 n = [digit (n div 1000), digit (n div 100), digit (n div 10), digit n]"

definition month_name :: "nat \<Rightarrow> ustr" where
  "month_name m =
     (if m = 1 then u ''January'' else if m = 2 then u ''February''
      else if m = 3 then u ''March'' else if m = 4 then u ''April''
      else if m = 5 then u ''May'' else if m = 6 then u ''June''
      else if m = 7 then u ''July'' else if m = 8 then u ''August''
      else if m = 9 then u ''September'' else if m = 10 then u ''October''
      else if m = 11 then u ''November'' else u ''December'')"

text \<open>\<open>strftime("%Y%m%d_%H%M%S")\<close>\<close>

definition strftime_stamp :: "datetime \<Rightarrow> ustr" where
  "strftime_stamp t =
     pad4 (year t) @ pad2 (month t) @ pad2 (day t) @ [95] @
     pad2 (hour t) @ pad2 (minute t) @ pad2 (second t)"

text \<open>\<open>strftime("%B %d, %Y %H:%M:%S")\<close>\<close>

definition strftime_long :: "datetime \<Rightarrow> ustr" where
  "strftime_long t =
     month_name (month t) @ [32] @ pad2 (day t) @ [44, 32] @ pad4 (year t) @ [32] @
     pad2 (hour t) @ [58] @ pad2 (minute t) @ [58] @ pad2 (second t)"

text \<open>The values \<open>datetime.now()\<close> can return.\<close>

definition valid_datetime :: "datetime \<Rightarrow> bool" where
  "valid_datetime t \<longleftrightarrow>
     1 \<le> year t \<and> year t \<le> 9999 \<and> 1 \<le> month t \<and> month t \<le> 12 \<and>
     1 \<le> day t \<and> day t \<le> 31 \<and> hour t < 24 \<and> minute t < 60 \<and> second t < 60"

section \<open>app.py: the hosted variant\<close>

subsection \<open>\<open>create_pdf_from_article\<close>\<close>

text \<open>The file's name, lines 121 to 124.\<close>

definition safe_topic :: "pylib \<Rightarrow> ustr \<Rightarrow> ustr" where
  "safe_topic L topic =
     take 40 (strip (filter (\<lambda>c. isalnum L c \<or> c = 32 \<or> c = 45 \<or> c = 95) topic))"

definition filename :: "pylib \<Rightarrow> ustr \<Rightarrow> ustr \<Rightarrow> ustr" where
  "filename L topic timestamp =
     u ''article_'' @ (if safe_topic L topic = [] then u ''topic'' else safe_topic L topic) @
     u ''_'' @ timestamp @ u ''.pdf''"

definition filepath :: "pylib \<Rightarrow> ustr \<Rightarrow> ustr \<Rightarrow> ustr" where
  "filepath L topic timestamp = u ''outputs/'' @ filename L topic timestamp"

text \<open>
  The first loop, lines 132 to 141: what one line of the article adds to
  \<open>wrapped_lines\<close>. \<open>looks_like_heading\<close> is the test of line 138.
\<close>

definition looks_like_heading :: "pylib \<Rightarrow> ustr \<Rightarrow> bool" where
  "looks_like_heading L stripped \<longleftrightarrow>
     endswith stripped (u '':'') \<or>
     (stripped = upper L stripped \<and> length (split_ws stripped) \<le> 6)"

definition wrapped_line :: "pylib \<Rightarrow> ustr \<Rightarrow> ustr list" where
  "wrapped_line L line =
     (if strip line = [] then [[]]
      else if looks_like_heading L (strip line) then [strip line]
      else wrapper_wrap L (strip line))"

definition wrapped_lines :: "pylib \<Rightarrow> ustr \<Rightarrow> ustr list" where
  "wrapped_lines L article_text = concat (map (wrapped_line L) (splitlines article_text))"

text \<open>The second loop, lines 160 to 183: one line of \<open>wrapped_lines\<close> is drawn.\<close>

definition section_labels :: "ustr list" where
  "section_labels =
     [u ''title:'', u ''introduction:'', u ''key concepts:'', u ''practical examples:'',
      u ''further reading:'', u ''summary:'']"

definition heading_test :: "pylib \<Rightarrow> ustr \<Rightarrow> bool" where
  "heading_test L line \<longleftrightarrow>
     endswith line (u '':'') \<or> list_ex (startswith (lower L line)) section_labels"

definition bullet_test :: "ustr \<Rightarrow> bool" where
  "bullet_test line \<longleftrightarrow>
     startswith line [45, 32] \<or> startswith line [8226, 32] \<or> startswith line [42, 32]"

definition draw_heading :: "ustr \<Rightarrow> pdf \<Rightarrow> exn + pdf" where
  "draw_heading heading pdf =
     (case multi_cell 0 8 heading AlignDefault
             (pdf @ [SetFont Helvetica Bold 14, SetTextColor 40 40 80]) of
        Inl e \<Rightarrow> Inl e
      | Inr pdf' \<Rightarrow> Inr (pdf' @ [Ln 2, SetFont Helvetica Regular 11, SetTextColor 10 10 30]))"

definition draw_bullet :: "ustr \<Rightarrow> pdf \<Rightarrow> exn + pdf" where
  "draw_bullet line pdf =
     multi_cell 0 6 line AlignDefault
       (pdf @ [SetFont Helvetica Regular 11, Cell 8 0 [] False AlignDefault])"

definition draw_body :: "ustr \<Rightarrow> pdf \<Rightarrow> exn + pdf" where
  "draw_body line pdf = multi_cell 0 6 line AlignDefault (pdf @ [SetFont Helvetica Regular 11])"

definition render_line :: "pylib \<Rightarrow> ustr \<Rightarrow> pdf \<Rightarrow> exn + pdf" where
  "render_line L line pdf =
     (if strip line = [] then Inr (pdf @ [Ln 4])
      else if heading_test L line then draw_heading (strip (rstrip_colon line)) pdf
      else if bullet_test line then draw_bullet line pdf
      else draw_body line pdf)"

fun render_lines :: "pylib \<Rightarrow> ustr list \<Rightarrow> pdf \<Rightarrow> exn + pdf" where
  "render_lines L [] pdf = Inr pdf"
| "render_lines L (line # rest) pdf =
     (case render_line L line pdf of
        Inl e \<Rightarrow> Inl e
      | Inr pdf' \<Rightarrow> render_lines L rest pdf')"

text \<open>The title block and the subtitle, lines 143 to 159.\<close>

definition title_text :: "ustr \<Rightarrow> ustr" where
  "title_text topic = (if strip topic = [] then u ''Educational Article'' else strip topic)"

definition title_block :: "ustr \<Rightarrow> exn + pdf" where
  "title_block topic =
     (case multi_cell 0 10 (title_text topic)
             AlignC [SetAutoPageBreak True 15, AddPage, SetFont Helvetica Bold 20,
                     SetTextColor 40 40 80] of
        Inl e \<Rightarrow> Inl e
      | Inr pdf \<Rightarrow> Inr (pdf @ [Ln 4, SetFont Helvetica Regular 10, SetTextColor 90 90 110]))"

definition subtitle :: "datetime \<Rightarrow> pdf \<Rightarrow> exn + pdf" where
  "subtitle t pdf =
     (case multi_cell 0 6 (u ''Generated on: '' @ strftime_long t) AlignC pdf of
        Inl e \<Rightarrow> Inl e
      | Inr pdf' \<Rightarrow> Inr (pdf' @ [Ln 8, SetTextColor 10 10 30]))"

text \<open>
  The whole function. The clock is read for the file's name first and for the subtitle
  after the title has been drawn; an exception leaves the function at the instruction
  that raised it, before the document is saved.
\<close>

definition create_pdf_from_article ::
  "pylib \<Rightarrow> ustr \<Rightarrow> ustr \<Rightarrow> world \<Rightarrow> (exn + ustr) \<times> world" where
  "create_pdf_from_article L article_text topic w =
     (let w1 = snd (now w);
          path = filepath L topic (strftime_stamp (fst (now w)))
      in case title_block topic of
           Inl e \<Rightarrow> (Inl e, w1)
         | Inr pdf1 \<Rightarrow>
             (let w2 = snd (now w1) in
              case subtitle (fst (now w1)) pdf1 of
                Inl e \<Rightarrow> (Inl e, w2)
              | Inr pdf2 \<Rightarrow>
                  (case render_lines L (wrapped_lines L article_text) pdf2 of
                     Inl e \<Rightarrow> (Inl e, w2)
                   | Inr pdf3 \<Rightarrow> (Inr path, pdf_output path pdf3 w2))))"

subsection \<open>\<open>generate_article_from_gemini\<close>\<close>

definition build_prompt :: "ustr \<Rightarrow> ustr" where
  "build_prompt topic =
       [10] @ u ''You are an expert educator and technical writer. Produce a '' @
       u ''clear, well-structured, up-to-date educational article'' @ [10] @
       u ''on the following topic. The user wants a comprehensive but '' @
       u ''readable article suitable for learners and practitioners.'' @ [10, 10] @
       u ''Topic: '' @ [34] @ topic @ [34, 10, 10] @ u ''Requirements:'' @ [10] @
       u ''- The article must include clearly labeled sections in this '' @
       u ''exact order:'' @ [10] @ u ''  1) Title'' @ [10] @ u ''  2) Introduction'' @
       [10] @ u ''  3) Key Concepts'' @ [10] @ u ''  4) Practical Examples'' @ [10] @
       u ''  5) Further Reading'' @ [10] @ u ''  6) Summary'' @ [10] @
       u ''- Use headings for each section (e.g., '' @ [34] @ u ''Title:'' @ [34] @
       u '', '' @ [34] @ u ''Introduction:'' @ [34] @ u '', '' @ [34] @
       u ''Key Concepts:'' @ [34] @ u '', etc.).'' @ [10] @
       u ''- Keep writing concise but informative. Use bullet points in '' @
       u ''Key Concepts and Practical Examples when helpful.'' @ [10] @
       u ''- Include at least 2 practical, concrete examples or '' @
       u ''mini-tutorial steps in Practical Examples.'' @ [10] @
       u ''- For Further Reading, include 4 suggestions (books, papers, '' @
       u ''or authoritative websites) with a 1-sentence reason for each.'' @ [10] @
       u ''- Aim for a total length ~600-1200 words. Use current '' @
       u ''best-practices where applicable.'' @ [10] @ u ''- Don'' @ [39] @
       u ''t include unrelated content or marketing fluff. No code other '' @
       u ''than short example snippets if relevant.'' @ [10, 10] @
       u ''Return the article as plain text.'' @ [10]"

text \<open>
  What \<open>genai.generate\<close> returns, as far as the function reads it: an object with its
  attributes \<open>content\<close> and \<open>text\<close> (\<open>None\<close> where the attribute is missing or is
  \<open>None\<close>) and its \<open>str\<close>, or a dictionary with its \<open>str\<close> and, under the key
  \<open>candidates\<close>, a list of dictionaries with the keys \<open>content\<close> and \<open>output\<close>.
  The call itself is the collaborator \<open>genai\<close>, from the prompt to a response or to
  the exception it raises.
\<close>

datatype candidate = Candidate "ustr option" "ustr option"

datatype response =
  Response "ustr option" "ustr option" ustr
| ResponseDict ustr "candidate list option"

text \<open>\<open>a or b\<close>, for an attribute \<open>a\<close>: \<open>None\<close> and the empty string are false.\<close>

definition py_or :: "ustr option \<Rightarrow> ustr \<Rightarrow> ustr" where
  "py_or a b = (case a of None \<Rightarrow> b | Some s \<Rightarrow> if s = [] then b else s)"

fun response_text :: "response \<Rightarrow> ustr" where
  "response_text (Response content txt repr) = py_or content (py_or txt repr)"
| "response_text (ResponseDict repr None) = repr"
| "response_text (ResponseDict repr (Some [])) = repr"
| "response_text (ResponseDict repr (Some (Candidate content out # rest))) =
     (case content of
        Some s \<Rightarrow> s
      | None \<Rightarrow> (case out of Some s \<Rightarrow> s | None \<Rightarrow> repr))"

definition generate_article_from_gemini ::
  "pylib \<Rightarrow> (ustr \<Rightarrow> exn + response) \<Rightarrow> ustr \<Rightarrow> ustr" where
  "generate_article_from_gemini L genai topic =
     (case genai (build_prompt topic) of
        Inl e \<Rightarrow> u ''ERROR: Failed to generate article from Gemini: '' @ exn_str L e
      | Inr r \<Rightarrow> strip (response_text r))"

subsection \<open>\<open>on_generate\<close>\<close>

text \<open>\<open>sep.join(xs)\<close>\<close>

fun join :: "ustr \<Rightarrow> ustr list \<Rightarrow> ustr" where
  "join sep [] = []"
| "join sep [x] = x"
| "join sep (x # y # xs) = x @ sep @ join sep (y # xs)"

definition required_sections :: "ustr list" where
  "required_sections =
     [u ''Title:'', u ''Introduction:'', u ''Key Concepts:'', u ''Practical Examples:'',
      u ''Further Reading:'', u ''Summary:'']"

text \<open>The list \<open>wrapped\<close> of lines 216 to 234.\<close>

definition wrapped :: "pylib \<Rightarrow> ustr \<Rightarrow> ustr \<Rightarrow> ustr list" where
  "wrapped L topic article_text =
     [u ''Title: '' @ title L (strip topic),
      [],
      u ''Introduction:'',
      article_text,
      [],
      u ''Key Concepts:'',
      u ''- (See above '' @ [8212] @ u '' split into bullets for clarity)'',
      [],
      u ''Practical Examples:'',
      u ''- Example 1: (Please refine)'',
      u ''- Example 2: (Please refine)'',
      [],
      u ''Further Reading:'',
      u ''- (Search current resources on the topic)'',
      [],
      u ''Summary:'',
      u ''- (Brief summary)'']"

definition structured :: "pylib \<Rightarrow> ustr \<Rightarrow> ustr \<Rightarrow> ustr" where
  "structured L topic article_text =
     (if \<not> list_ex (\<lambda>s. sublist s article_text) required_sections
      then join [10] (wrapped L topic article_text)
      else article_text)"

text \<open>
  The callback: the text shown, the file offered for download (\<open>None\<close> for none), and
  the world after the call.
\<close>

definition on_generate ::
  "pylib \<Rightarrow> (ustr \<Rightarrow> exn + response) \<Rightarrow> ustr \<Rightarrow> world \<Rightarrow> (ustr \<times> ustr option) \<times> world" where
  "on_generate L genai topic0 w =
     (let topic = strip topic0 in
      if topic = [] then ((u ''Please enter a topic to generate an article.'', None), w)
      else
        (let article_text = generate_article_from_gemini L genai topic in
         if startswith article_text (u ''ERROR:'') then ((article_text, None), w)
         else
           (let article_text2 = structured L topic article_text in
            case create_pdf_from_article L article_text2 topic w of
              (Inr pdf_path, w') \<Rightarrow> ((article_text2, Some pdf_path), w')
            | (Inl e, w') \<Rightarrow>
                ((u ''ERROR: Article generated but failed to create PDF: '' @ exn_str L e @
                  [10, 10] @ u ''Article content below:'' @ [10, 10] @ article_text2, None),
                 w'))))"

section \<open>main.py: the local variant\<close>

subsection \<open>\<open>ArticleGenerator\<close>\<close>

text \<open>
  The tokenizer and the model are the collaborator \<open>t5\<close>, from the prompt to the decoded
  text or to the exception raised on the way.
\<close>

definition t5_prompt :: "ustr \<Rightarrow> ustr" where
  "t5_prompt topic =
       u ''Write a comprehensive educational article about '' @ topic @ u ''. '' @ [10] @
       u ''        Include an introduction, main body with multiple '' @
       u ''sections, examples, and a conclusion. '' @ [10] @
       u ''        Make it informative and well-structured for '' @
       u ''educational purposes.''"

definition format_article :: "pylib \<Rightarrow> ustr \<Rightarrow> ustr \<Rightarrow> ustr" where
  "format_article L article topic =
       u ''# '' @ title L topic @ [10, 10] @ u ''## Introduction'' @ [10, 10] @
       strip article @ [10, 10] @ u ''## Key Points'' @ [10, 10] @
       u ''This article covers the essential aspects of '' @ topic @
       u '', providing readers with a comprehensive understanding of the '' @
       u ''subject matter.'' @ [10, 10] @ u ''## Further Reading'' @ [10, 10] @
       u ''For more information on '' @ topic @
       u '', consider exploring academic journals, reputable online '' @
       u ''resources, and educational materials from established '' @ u ''institutions.'' @
       [10, 10] @ u ''## Conclusion'' @ [10, 10] @ u ''Understanding '' @ topic @
       u '' is valuable for educational and practical purposes. This '' @
       u ''overview provides a foundation for further exploration of the '' @
       u ''subject.'' @ [10]"

definition generate_article :: "pylib \<Rightarrow> (ustr \<Rightarrow> exn + ustr) \<Rightarrow> ustr \<Rightarrow> exn + ustr" where
  "generate_article L t5 topic =
     (case t5 (t5_prompt topic) of
        Inl e \<Rightarrow> Inl e
      | Inr article \<Rightarrow> Inr (format_article L article topic))"

subsection \<open>\<open>PDFGenerator.create_pdf\<close>\<close>

text \<open>\<open>s.split(sep)\<close> for a separator of one character: the empty text gives one empty piece.\<close>

fun split_on :: "nat \<Rightarrow> ustr \<Rightarrow> ustr list" where
  "split_on sep [] = [[]]"
| "split_on sep (c # s) =
     (if c = sep then [] # split_on sep s
      else (case split_on sep s of
              [] \<Rightarrow> [[c]]
            | x # xs \<Rightarrow> (c # x) # xs))"

text \<open>\<open>line.encode('latin-1', 'replace').decode('latin-1')\<close>: a question mark for what Latin-1 lacks.\<close>

definition encode_replace :: "ustr \<Rightarrow> ustr" where
  "encode_replace line = map (\<lambda>c. if latin1 c then c else 63) line"

text \<open>
  The loop over the words of a line, lines 122 to 128: \<open>current_line\<close> and the document
  after it.
\<close>

fun pack_words :: "ustr \<Rightarrow> ustr list \<Rightarrow> pdf \<Rightarrow> exn + (ustr \<times> pdf)" where
  "pack_words current_line [] pdf = Inr (current_line, pdf)"
| "pack_words current_line (word # rest) pdf =
     (if length (current_line @ word) < 80 then pack_words (current_line @ word @ [32]) rest pdf
      else if current_line \<noteq> [] then
        (case cell 0 6 (strip current_line) True AlignDefault pdf of
           Inl e \<Rightarrow> Inl e
         | Inr pdf' \<Rightarrow> pack_words (word @ [32]) rest pdf')
      else pack_words (word @ [32]) rest pdf)"

definition draw_text_line :: "ustr \<Rightarrow> pdf \<Rightarrow> exn + pdf" where
  "draw_text_line line pdf =
     (case pack_words [] (split_on 32 (encode_replace line)) pdf of
        Inl e \<Rightarrow> Inl e
      | Inr (current_line, pdf') \<Rightarrow>
          if current_line \<noteq> [] then cell 0 6 (strip current_line) True AlignDefault pdf'
          else Inr pdf')"

text \<open>One line of the content, lines 98 to 133.\<close>

definition draw_content_line :: "ustr \<Rightarrow> pdf \<Rightarrow> exn + pdf" where
  "draw_content_line line pdf =
     (if startswith line (u ''# '') then
        (case cell 0 8 (drop 2 line) True AlignDefault (pdf @ [SetFont Arial Bold 14]) of
           Inl e \<Rightarrow> Inl e
         | Inr pdf' \<Rightarrow> Inr (pdf' @ [Ln 3, SetFont Arial Regular 11]))
      else if startswith line (u ''## '') then
        (case cell 0 7 (drop 3 line) True AlignDefault (pdf @ [SetFont Arial Bold 12]) of
           Inl e \<Rightarrow> Inl e
         | Inr pdf' \<Rightarrow> Inr (pdf' @ [Ln 2, SetFont Arial Regular 11]))
      else if strip line \<noteq> [] then draw_text_line line pdf
      else Inr (pdf @ [Ln 3]))"

fun draw_content :: "ustr list \<Rightarrow> pdf \<Rightarrow> exn + pdf" where
  "draw_content [] pdf = Inr pdf"
| "draw_content (line # rest) pdf =
     (case draw_content_line line pdf of
        Inl e \<Rightarrow> Inl e
      | Inr pdf' \<Rightarrow> draw_content rest pdf')"

definition create_pdf :: "ustr \<Rightarrow> ustr \<Rightarrow> world \<Rightarrow> (exn + ustr) \<times> world" where
  "create_pdf ttl content w =
     (case cell 0 10 ttl True AlignC
             [AddPage, SetFont Arial Regular 12, SetFont Arial Bold 16] of
        Inl e \<Rightarrow> (Inl e, w)
      | Inr pdf1 \<Rightarrow>
          (case draw_content (split_on 10 content) (pdf1 @ [Ln 10, SetFont Arial Regular 11]) of
             Inl e \<Rightarrow> (Inl e, w)
           | Inr pdf2 \<Rightarrow>
               (let name = u ''article_'' @ strftime_stamp (fst (now w)) @ u ''.pdf''
                in (Inr name, pdf_output name pdf2 (snd (now w))))))"

subsection \<open>\<open>generate_and_create_pdf\<close>\<close>

definition generate_and_create_pdf ::
  "pylib \<Rightarrow> (ustr \<Rightarrow> exn + ustr) \<Rightarrow> ustr \<Rightarrow> world \<Rightarrow> (ustr \<times> ustr option) \<times> world" where
  "generate_and_create_pdf L t5 topic w =
     (if strip topic = [] then ((u ''Please enter a topic to generate an article.'', None), w)
      else
        (case generate_article L t5 topic of
           Inl e \<Rightarrow> ((u ''Error generating article: '' @ exn_str L e, None), w)
         | Inr article \<Rightarrow>
             (case create_pdf (title L topic) article w of
                (Inl e, w') \<Rightarrow> ((u ''Error generating article: '' @ exn_str L e, None), w')
              | (Inr pdf_filename, w') \<Rightarrow> ((article, Some pdf_filename), w'))))"

section \<open>A world to run the model in\<close>

definition example_time :: datetime where
  "example_time = \<lparr>year = 2024, month = 3, day = 7, hour = 9, minute = 5, second = 0\<rparr>"

text \<open>No file yet; the \<open>n\<close>-th reading of the clock is \<open>n\<close> seconds after 09:05:00.\<close>

definition example_world :: world where
  "example_world =
     \<lparr>files = Map.empty, clock = (\<lambda>n. example_time\<lparr>second := n\<rparr>), ticks = 0\<rparr>"



definition emoji_genai :: "ustr \<Rightarrow> exn + response" where
  "emoji_genai prompt = Inr (Response None (Some (u ''Summary: '' @ [128512, 58])) [])"

definition hello_t5 :: "ustr \<Rightarrow> exn + ustr" where
  "hello_t5 prompt = Inr (u ''hello'')"

text \<open>Two calls in a row with the same title and body.\<close>

definition first_call :: "(exn + ustr) \<times> world" where
  "first_call = create_pdf_from_article ascii_pylib (u ''Summary:'') (u ''Cats'') example_world"

definition second_call :: "(exn + ustr) \<times> world" where
  "second_call =
     create_pdf_from_article ascii_pylib (u ''Summary:'') (u ''Cats'') (snd first_call)"

text \<open>The characters of a text that are not whitespace, in order.\<close>

definition visible :: "ustr \<Rightarrow> ustr" where
  "visible s = filter (\<lambda>c. \<not> isspace c) s"

text \<open>
  Lines put back between the gaps that separated them: \<open>weave [g0, g1, g2] [l1, l2]\<close> is
  \<open>g0 @ l1 @ g1 @ l2 @ g2\<close>.
\<close>

fun weave :: "ustr list \<Rightarrow> ustr list \<Rightarrow> ustr" where
  "weave [] ls = concat ls"
| "weave (g # gs) [] = g"
| "weave (g # gs) (l # ls) = g @ l @ weave gs ls"

text \<open>The line terminators of \<open>str.splitlines\<close>: one line boundary, or CR LF.\<close>

definition terminator :: "ustr \<Rightarrow> bool" where
  "terminator sep \<longleftrightarrow> sep = [13, 10] \<or> (length sep = 1 \<and> linebreak (hd sep))"

section \<open>Properties\<close>

subsection \<open>Facts about the string functions\<close>

lemma strip_eq_Nil: "strip s = [] \<longleftrightarrow> list_all isspace s"
proof -
  have "strip s = [] \<longleftrightarrow> (\<forall>x\<in>set (dropWhile isspace s). isspace x)"
    by (simp add: strip_def rstrip_def lstrip_def)
  also have "\<dots> \<longleftrightarrow> dropWhile isspace s = []"
  proof
    assume a: "\<forall>x\<in>set (dropWhile isspace s). isspace x"
    show "dropWhile isspace s = []"
    proof (rule ccontr)
      assume ne: "dropWhile isspace s \<noteq> []"
      then have "\<not> isspace (hd (dropWhile isspace s))"
        by (rule hd_dropWhile)
      moreover have "hd (dropWhile isspace s) \<in> set (dropWhile isspace s)"
        using ne by simp
      ultimately show False
        using a by blast
    qed
  qed (auto dest: set_dropWhileD)
  also have "\<dots> \<longleftrightarrow> list_all isspace s"
    by (simp add: list_all_iff)
  finally show ?thesis .
qed

lemma rstrip_colon_no_colon: "\<not> endswith (rstrip_colon s) (u '':'')"
proof
  assume "endswith (rstrip_colon s) (u '':'')"
  then obtain p where "rstrip_colon s = p @ [58]"
    by (auto simp: endswith_def u_def suffix_def)
  then have "rev (rstrip_colon s) = 58 # rev p"
    by simp
  then have "dropWhile (\<lambda>c. c = 58) (rev s) = 58 # rev p"
    by (simp add: rstrip_colon_def)
  then have "dropWhile (\<lambda>c. c = 58) (rev s) \<noteq> [] \<and> hd (dropWhile (\<lambda>c. c = 58) (rev s)) = 58"
    by simp
  then show False
    using hd_dropWhile [of "\<lambda>c. c = 58" "rev s"] by blast
qed

lemma bullet_not_blank: "bullet_test line \<Longrightarrow> strip line \<noteq> []"
  by (auto simp: bullet_test_def startswith_def prefix_def strip_eq_Nil isspace_def)

lemma rstrip_Cons: "\<not> isspace c \<Longrightarrow> rstrip (c # r) = c # rstrip r"
  by (simp add: rstrip_def dropWhile_append)

lemma strip_hd: "strip s \<noteq> [] \<Longrightarrow> \<not> isspace (hd (strip s))"
proof -
  assume ne: "strip s \<noteq> []"
  show ?thesis
  proof (cases "dropWhile isspace s")
    case Nil
    then have "strip s = []"
      by (simp add: strip_eq_Nil list_all_iff)
    with ne show ?thesis by simp
  next
    case (Cons c r)
    then have "\<not> isspace c"
      using hd_dropWhile [of isspace s] by auto
    then show ?thesis
      using Cons by (simp add: strip_def lstrip_def rstrip_Cons)
  qed
qed

lemma strip_strip_ne: "strip s \<noteq> [] \<Longrightarrow> strip (strip s) \<noteq> []"
proof
  assume ne: "strip s \<noteq> []" and "strip (strip s) = []"
  then have "list_all isspace (strip s)"
    by (simp add: strip_eq_Nil)
  then have "isspace (hd (strip s))"
    using ne by (cases "strip s") auto
  with strip_hd [OF ne] show False by simp
qed

text \<open>The equations that evaluate the string functions on a literal.\<close>

lemmas str_eval = u_def strip_def lstrip_def rstrip_def rstrip_colon_def isspace_def
  endswith_def startswith_def suffix_to_prefix

lemmas draw_eval = draw_heading_def draw_bullet_def draw_body_def multi_cell_def cell_def
  normalize_text_def latin1_def cursor_def epw_def

lemmas lib_eval = ascii_pylib_def ascii_isdigit_def ascii_isupper_def ascii_islower_def
  ascii_toupper_def ascii_tolower_def

lemmas time_eval = now_def example_world_def example_time_def strftime_stamp_def
  strftime_long_def month_name_def pad2_def pad4_def digit_def

subsection \<open>The order of the tests when a line is drawn\<close>

lemma rstrip_colon_Cons: "c \<noteq> 58 \<Longrightarrow> rstrip_colon (c # r) = c # rstrip_colon r"
  by (simp add: rstrip_colon_def dropWhile_append)

lemma strip_Cons: "\<not> isspace c \<Longrightarrow> strip (c # r) = c # rstrip r"
  by (simp add: strip_def lstrip_def rstrip_Cons)

lemma bullet_heading_text:
  assumes "bullet_test line"
  shows "\<exists>r. strip (rstrip_colon line) = hd line # r"
proof -
  from assms obtain c rest where l: "line = c # 32 # rest" and c: "c = 45 \<or> c = 8226 \<or> c = 42"
    by (auto simp: bullet_test_def startswith_def prefix_def)
  from c have "c \<noteq> 58" and "\<not> isspace c"
    by (auto simp: isspace_def)
  then have "strip (rstrip_colon line) = c # rstrip (rstrip_colon (32 # rest))"
    by (simp add: l rstrip_colon_Cons strip_Cons)
  then show ?thesis
    by (simp add: l)
qed

lemma draw_heading_cases:
  "draw_heading heading pdf =
     (case normalize_text heading of
        Inl e \<Rightarrow> Inl e
      | Inr t \<Rightarrow>
          if t \<noteq> [] \<and> epw \<le> cursor pdf then Inl FPDFException
          else Inr (pdf @ [SetFont Helvetica Bold 14, SetTextColor 40 40 80,
                           MultiCell 0 8 t AlignDefault,
                           Ln 2, SetFont Helvetica Regular 11, SetTextColor 10 10 30]))"
  by (simp add: draw_heading_def multi_cell_def cursor_def split: sum.splits)

text \<open>
  Claim C10, as amended. When a line of \<open>wrapped_lines\<close> is drawn, the heading test
  comes before the bullet test. So a line that starts with a bullet marker (\<open>- \<close>,
  U+2022 and a space, or \<open>* \<close>) and ends with a colon takes the heading branch and
  never the bullet branch: the indent cell of a bullet is not drawn for it. The text
  of the heading is the line without its run of trailing colons and then without the
  whitespace around the rest; it is not empty. What happens to it is the backend's
  decision: a text with a character outside Latin-1 is rejected, and so is every line
  with the marker U+2022; a text that comes while the cursor stands at the right margin
  (after a body or bullet line, which end without a line break) is rejected; any other
  text is drawn by the six instructions of a heading.
\<close>

theorem bullet_with_colon_takes_heading_branch:
  assumes "bullet_test line" and "endswith line (u '':'')"
  shows "render_line L line pdf = draw_heading (strip (rstrip_colon line)) pdf \<and>
         strip (rstrip_colon line) \<noteq> [] \<and>
         render_line L line pdf =
           (case normalize_text (strip (rstrip_colon line)) of
              Inl e \<Rightarrow> Inl e
            | Inr t \<Rightarrow>
                if epw \<le> cursor pdf then Inl FPDFException
                else Inr (pdf @ [SetFont Helvetica Bold 14, SetTextColor 40 40 80,
                                 MultiCell 0 8 t AlignDefault,
                                 Ln 2, SetFont Helvetica Regular 11, SetTextColor 10 10 30])) \<and>
         (startswith line [8226, 32] \<longrightarrow>
            render_line L line pdf = Inl (FPDFUnicodeEncodingException 8226))"
proof -
  have r: "render_line L line pdf = draw_heading (strip (rstrip_colon line)) pdf"
    using assms bullet_not_blank [of line] by (simp add: render_line_def heading_test_def)
  obtain rest where h: "strip (rstrip_colon line) = hd line # rest"
    using bullet_heading_text [OF assms(1)] by blast
  have ne: "strip (rstrip_colon line) \<noteq> []"
    by (simp add: h)
  have n: "normalize_text (strip (rstrip_colon line)) = Inr t \<Longrightarrow> t \<noteq> []" for t
    using ne by (auto simp: normalize_text_def split: option.splits)
  have c: "render_line L line pdf =
           (case normalize_text (strip (rstrip_colon line)) of
              Inl e \<Rightarrow> Inl e
            | Inr t \<Rightarrow>
                if epw \<le> cursor pdf then Inl FPDFException
                else Inr (pdf @ [SetFont Helvetica Bold 14, SetTextColor 40 40 80,
                                 MultiCell 0 8 t AlignDefault,
                                 Ln 2, SetFont Helvetica Regular 11, SetTextColor 10 10 30]))"
    unfolding r draw_heading_cases using n by (auto split: sum.splits)
  have "render_line L line pdf = Inl (FPDFUnicodeEncodingException 8226)"
    if "startswith line [8226, 32]"
  proof -
    from that have "hd line = 8226"
      by (auto simp: startswith_def prefix_def)
    then have "normalize_text (strip (rstrip_colon line)) =
        Inl (FPDFUnicodeEncodingException 8226)"
      by (simp add: h normalize_text_def latin1_def)
    then show ?thesis
      by (simp add: c)
  qed
  with r ne c show ?thesis
    by blast
qed

theorem bullet_with_colon_takes_heading_branch_witness:
  "bullet_test (u ''- Note:'') \<and> endswith (u ''- Note:'') (u '':'') \<and>
   render_line ascii_pylib (u ''- Note:'') [AddPage] =
     Inr [AddPage, SetFont Helvetica Bold 14, SetTextColor 40 40 80,
          MultiCell 0 8 (u ''- Note'') AlignDefault,
          Ln 2, SetFont Helvetica Regular 11, SetTextColor 10 10 30]"
proof -
  have p1: "bullet_test (u ''- Note:'')"
    by (simp add: bullet_test_def startswith_def u_def)
  have p2: "endswith (u ''- Note:'') (u '':'')"
    by (simp add: endswith_def u_def suffix_to_prefix)
  have h: "draw_heading (strip (rstrip_colon (u ''- Note:''))) [AddPage] =
     Inr [AddPage, SetFont Helvetica Bold 14, SetTextColor 40 40 80,
          MultiCell 0 8 (u ''- Note'') AlignDefault,
          Ln 2, SetFont Helvetica Regular 11, SetTextColor 10 10 30]"
    by (simp add: str_eval draw_eval)
  have "render_line ascii_pylib (u ''- Note:'') [AddPage] =
      draw_heading (strip (rstrip_colon (u ''- Note:''))) [AddPage]"
    using bullet_with_colon_takes_heading_branch [OF p1 p2, of ascii_pylib "[AddPage]"]
    by (rule conjunct1)
  with h p1 p2 show ?thesis
    by simp
qed

text \<open>
  The claim as it was worded (every such line is rendered as a heading, with all
  trailing colons stripped) fails twice. A line with the marker U+2022 is not rendered
  at all: the backend rejects the marker. And the text that is drawn can still end with
  a colon: the line \<open>- a: :\<close> is drawn as \<open>- a:\<close>.
\<close>

theorem bullet_marker_counterexample:
  "bullet_test [8226, 32, 78, 58] \<and> endswith [8226, 32, 78, 58] (u '':'') \<and>
   render_line ascii_pylib [8226, 32, 78, 58] [AddPage] =
     Inl (FPDFUnicodeEncodingException 8226) \<and>
   bullet_test (u ''- a: :'') \<and> endswith (u ''- a: :'') (u '':'') \<and>
   render_line ascii_pylib (u ''- a: :'') [AddPage] =
     Inr [AddPage, SetFont Helvetica Bold 14, SetTextColor 40 40 80,
          MultiCell 0 8 (u ''- a:'') AlignDefault,
          Ln 2, SetFont Helvetica Regular 11, SetTextColor 10 10 30] \<and>
   endswith (u ''- a:'') (u '':'')"
  by (simp add: bullet_test_def render_line_def heading_test_def str_eval draw_eval)

subsection \<open>Headings in the first loop\<close>

text \<open>
  Claim C2, as amended. For every line that is not blank, the first loop takes the
  line for a heading exactly when its stripped content ends with a colon, or equals its
  own uppercasing and has at most 6 words. A heading is not wrapped: the stripped
  content goes into \<open>wrapped_lines\<close> as one line, whatever its length; any other line
  goes through the wrapper. When it is drawn, a line that ends with a colon is shown
  without all of its trailing colons and then without the whitespace around what is
  left (not just without one colon).
\<close>

theorem wrap_stage_heading:
  assumes "strip line \<noteq> []"
  shows "wrapped_line L line =
           (if endswith (strip line) (u '':'') \<or>
               (strip line = upper L (strip line) \<and> length (split_ws (strip line)) \<le> 6)
            then [strip line] else wrapper_wrap L (strip line)) \<and>
         (endswith (strip line) (u '':'') \<longrightarrow>
            render_line L (strip line) pdf =
              draw_heading (strip (rstrip_colon (strip line))) pdf)"
  using assms strip_strip_ne [OF assms]
  by (simp add: wrapped_line_def looks_like_heading_def render_line_def heading_test_def)

theorem wrap_stage_heading_witness:
  "strip (u ''Key Concepts:'') \<noteq> [] \<and>
   wrapped_line ascii_pylib (u ''Key Concepts:'') = [u ''Key Concepts:''] \<and>
   render_line ascii_pylib (u ''Key Concepts:'') [] =
     Inr [SetFont Helvetica Bold 14, SetTextColor 40 40 80,
          MultiCell 0 8 (u ''Key Concepts'') AlignDefault,
          Ln 2, SetFont Helvetica Regular 11, SetTextColor 10 10 30]"
proof -
  have s: "strip (u ''Key Concepts:'') = u ''Key Concepts:''"
    by (simp add: str_eval)
  have p: "strip (u ''Key Concepts:'') \<noteq> []"
    by (simp add: str_eval)
  have e: "endswith (u ''Key Concepts:'') (u '':'')"
    by (simp add: str_eval)
  have h: "draw_heading (strip (rstrip_colon (u ''Key Concepts:''))) [] =
     Inr [SetFont Helvetica Bold 14, SetTextColor 40 40 80,
          MultiCell 0 8 (u ''Key Concepts'') AlignDefault,
          Ln 2, SetFont Helvetica Regular 11, SetTextColor 10 10 30]"
    by (simp add: str_eval draw_eval)
  show ?thesis
    using wrap_stage_heading [OF p, of ascii_pylib "[]"] p h
    by (simp only: s e) simp
qed

text \<open>
  The claim as it was worded (only the trailing colon is removed for display) fails
  for a heading with two trailing colons: \<open>A::\<close> passes through the first loop as it
  is and is shown as \<open>A\<close>, not as \<open>A:\<close>.
\<close>

theorem heading_display_counterexample:
  "strip (u ''A::'') \<noteq> [] \<and> endswith (strip (u ''A::'')) (u '':'') \<and>
   wrapped_line ascii_pylib (u ''A::'') = [u ''A::''] \<and>
   render_line ascii_pylib (u ''A::'') [] =
     Inr [SetFont Helvetica Bold 14, SetTextColor 40 40 80,
          MultiCell 0 8 (u ''A'') AlignDefault,
          Ln 2, SetFont Helvetica Regular 11, SetTextColor 10 10 30] \<and>
   u ''A'' \<noteq> butlast (u ''A::'')"
  by (simp add: wrapped_line_def looks_like_heading_def render_line_def heading_test_def
        str_eval draw_eval)

subsection \<open>The name of the file\<close>

lemma digit_is_digit: "ascii_isdigit (digit n)"
proof -
  have "n mod 10 < 10"
    by simp
  then show ?thesis
    unfolding ascii_isdigit_def digit_def by arith
qed

lemma stamp_shape:
  "length (strftime_stamp t) = 15 \<and> list_all ascii_isdigit (take 8 (strftime_stamp t)) \<and>
   strftime_stamp t ! 8 = 95 \<and> list_all ascii_isdigit (drop 9 (strftime_stamp t))"
  by (simp add: strftime_stamp_def pad4_def pad2_def digit_is_digit)

lemma safe_topic_chars:
  "list_all (\<lambda>c. isalnum L c \<or> c = 32 \<or> c = 45 \<or> c = 95) (safe_topic L topic)"
proof -
  have "set (safe_topic L topic)
      \<subseteq> set (filter (\<lambda>c. isalnum L c \<or> c = 32 \<or> c = 45 \<or> c = 95) topic)"
    unfolding safe_topic_def strip_def rstrip_def lstrip_def
    using set_dropWhileD by (metis (no_types, lifting) set_rev subsetI in_set_takeD)
  then show ?thesis
    by (auto simp: list_all_iff)
qed

lemma created_path:
  "fst (create_pdf_from_article L article_text topic w) = Inr path \<Longrightarrow>
     path = filepath L topic (strftime_stamp (clock w (ticks w))) \<and>
     files (snd (create_pdf_from_article L article_text topic w)) path \<noteq> None"
  by (auto simp: create_pdf_from_article_def Let_def now_def pdf_output_def split: sum.splits)

lemma created_name:
  "fst (create_pdf ttl content w) = Inr name \<Longrightarrow>
     name = u ''article_'' @ strftime_stamp (clock w (ticks w)) @ u ''.pdf'' \<and>
     files (snd (create_pdf ttl content w)) name \<noteq> None"
  by (auto simp: create_pdf_def Let_def now_def pdf_output_def split: sum.splits)

lemma create_pdf_example:
  "fst (create_pdf (u ''Cats'') (u ''hello'') example_world) =
     Inr (u ''article_20240307_090500.pdf'')"
  by (simp add: create_pdf_def Let_def time_eval str_eval draw_eval
        draw_content_line_def draw_text_line_def encode_replace_def)

lemma create_pdf_from_article_example:
  "fst (create_pdf_from_article ascii_pylib (u ''Summary:'') (u ''Cats'') example_world) =
     Inr (u ''outputs/article_Cats_20240307_090500.pdf'')"
  by (simp add: create_pdf_from_article_def Let_def time_eval title_block_def title_text_def
        subtitle_def
        wrapped_lines_def wrapped_line_def looks_like_heading_def render_line_def
        heading_test_def splitlines.simps linebreak_def filepath_def filename_def
        safe_topic_def str_eval draw_eval lib_eval)

text \<open>
  Claim C8, as amended. In the hosted variant (\<open>create_pdf_from_article\<close>) the file
  saved is \<open>outputs/article_<safe-topic-or-default>_<timestamp>.pdf\<close>: the timestamp has
  the form YYYYMMDD_HHMMSS; the safe topic is the topic with only its alphanumerics,
  spaces, hyphens and underscores kept, then stripped of the whitespace at both ends,
  then cut to 40 characters; the default \<open>topic\<close> stands in for an empty safe topic. In
  the local variant (\<open>PDFGenerator.create_pdf\<close>) the file saved is
  \<open>article_<timestamp>.pdf\<close>: its name has no topic part.
\<close>

theorem output_file_name:
  "safe_topic L topic =
     take 40 (strip (filter (\<lambda>c. isalnum L c \<or> c = 32 \<or> c = 45 \<or> c = 95) topic)) \<and>
   length (safe_topic L topic) \<le> 40 \<and>
   list_all (\<lambda>c. isalnum L c \<or> c = 32 \<or> c = 45 \<or> c = 95) (safe_topic L topic) \<and>
   length (strftime_stamp t) = 15 \<and> list_all ascii_isdigit (take 8 (strftime_stamp t)) \<and>
   strftime_stamp t ! 8 = 95 \<and> list_all ascii_isdigit (drop 9 (strftime_stamp t)) \<and>
   (\<forall>path. fst (create_pdf_from_article L article_text topic w) = Inr path \<longrightarrow>
      path = u ''outputs/'' @ u ''article_'' @
             (if safe_topic L topic = [] then u ''topic'' else safe_topic L topic) @
             u ''_'' @ strftime_stamp (clock w (ticks w)) @ u ''.pdf'' \<and>
      files (snd (create_pdf_from_article L article_text topic w)) path \<noteq> None) \<and>
   (\<forall>name. fst (create_pdf ttl content w) = Inr name \<longrightarrow>
      name = u ''article_'' @ strftime_stamp (clock w (ticks w)) @ u ''.pdf'' \<and>
      files (snd (create_pdf ttl content w)) name \<noteq> None)"
proof -
  have "length (safe_topic L topic) \<le> 40"
    by (simp add: safe_topic_def)
  moreover have "\<forall>path. fst (create_pdf_from_article L article_text topic w) = Inr path \<longrightarrow>
      path = u ''outputs/'' @ u ''article_'' @
             (if safe_topic L topic = [] then u ''topic'' else safe_topic L topic) @
             u ''_'' @ strftime_stamp (clock w (ticks w)) @ u ''.pdf'' \<and>
      files (snd (create_pdf_from_article L article_text topic w)) path \<noteq> None"
    using created_path [of L article_text topic w] by (simp add: filepath_def filename_def)
  moreover have "\<forall>name. fst (create_pdf ttl content w) = Inr name \<longrightarrow>
      name = u ''article_'' @ strftime_stamp (clock w (ticks w)) @ u ''.pdf'' \<and>
      files (snd (create_pdf ttl content w)) name \<noteq> None"
    using created_name [of ttl content w] by simp
  ultimately show ?thesis
    using stamp_shape [of t] safe_topic_chars [of L topic] by (simp add: safe_topic_def)
qed

theorem output_file_name_witness:
  "fst (create_pdf_from_article ascii_pylib (u ''Summary:'') (u ''Cats'') example_world) =
     Inr (u ''outputs/article_Cats_20240307_090500.pdf'') \<and>
   files (snd (create_pdf_from_article ascii_pylib (u ''Summary:'') (u ''Cats'') example_world))
     (u ''outputs/article_Cats_20240307_090500.pdf'') \<noteq> None \<and>
   fst (create_pdf (u ''Cats'') (u ''hello'') example_world) =
     Inr (u ''article_20240307_090500.pdf'') \<and>
   files (snd (create_pdf (u ''Cats'') (u ''hello'') example_world))
     (u ''article_20240307_090500.pdf'') \<noteq> None"
  using output_file_name [of ascii_pylib "u ''Cats''" example_time "u ''Summary:''"
      example_world "u ''Cats''" "u ''hello''"]
    create_pdf_example create_pdf_from_article_example
  by blast

text \<open>
  The claim as it was worded (every invocation names the file after the topic) fails in
  the local variant: for the title \<open>Cats\<close> the file is \<open>article_20240307_090500.pdf\<close>,
  which is not the name the hosted variant builds from that topic and timestamp.
\<close>

theorem file_name_counterexample:
  "fst (create_pdf (u ''Cats'') (u ''hello'') example_world) =
     Inr (u ''article_20240307_090500.pdf'') \<and>
   filename ascii_pylib (u ''Cats'') (strftime_stamp (clock example_world (ticks example_world))) =
     u ''article_Cats_20240307_090500.pdf''"
  by (simp add: create_pdf_example)
     (simp add: filename_def safe_topic_def str_eval lib_eval time_eval)

subsection \<open>When the document cannot be created\<close>

lemma sublist_structured: "sublist article_text (structured L topic article_text)"
proof (cases "list_ex (\<lambda>s. sublist s article_text) required_sections")
  case True
  then show ?thesis
    by (simp add: structured_def)
next
  case False
  have "join [10] (wrapped L topic article_text) =
      (u ''Title: '' @ title L (strip topic) @ [10] @ [10] @ u ''Introduction:'' @ [10]) @
      article_text @ ([10] @ join [10] (drop 4 (wrapped L topic article_text)))"
    by (simp add: wrapped_def)
  then have "sublist article_text (join [10] (wrapped L topic article_text))"
    unfolding sublist_def by blast
  with False show ?thesis
    by (simp add: structured_def)
qed

lemma on_generate_pdf_failure:
  assumes "strip topic0 \<noteq> []"
    and "article_text = generate_article_from_gemini L genai (strip topic0)"
    and "\<not> startswith article_text (u ''ERROR:'')"
    and "fst (create_pdf_from_article L (structured L (strip topic0) article_text)
              (strip topic0) w) = Inl e"
  shows "fst (on_generate L genai topic0 w) =
      (u ''ERROR: Article generated but failed to create PDF: '' @ exn_str L e @ [10, 10] @
       u ''Article content below:'' @ [10, 10] @ structured L (strip topic0) article_text,
       None)"
  using assms by (auto simp: on_generate_def Let_def split: prod.splits sum.splits)

lemma on_generate_pdf_failure_text:
  assumes "strip topic0 \<noteq> []"
    and "article_text = generate_article_from_gemini L genai (strip topic0)"
    and "\<not> startswith article_text (u ''ERROR:'')"
    and "fst (create_pdf_from_article L (structured L (strip topic0) article_text)
              (strip topic0) w) = Inl e"
  shows "sublist article_text (fst (fst (on_generate L genai topic0 w)))"
proof -
  have "suffix (structured L (strip topic0) article_text)
          (fst (fst (on_generate L genai topic0 w)))"
    unfolding on_generate_pdf_failure [OF assms] by (simp add: suffix_def)
  then have "sublist (structured L (strip topic0) article_text)
          (fst (fst (on_generate L genai topic0 w)))"
    by (rule suffix_imp_sublist)
  with sublist_structured [of article_text L "strip topic0"] show ?thesis
    using sublist_order.order_trans by blast
qed

lemma local_pdf_failure:
  assumes "strip topic \<noteq> []" and "generate_article L t5 topic = Inr article"
    and "fst (create_pdf (title L topic) article w) = Inl e"
  shows "fst (generate_and_create_pdf L t5 topic w) =
           (u ''Error generating article: '' @ exn_str L e, None)"
  using assms by (auto simp: generate_and_create_pdf_def split: prod.splits sum.splits)

lemma strip_cats: "strip (u ''cats'') = u ''cats''"
  by (simp add: str_eval)

lemma emoji_article:
  "generate_article_from_gemini ascii_pylib emoji_genai (strip (u ''cats'')) =
     u ''Summary: '' @ [128512, 58]"
  by (simp add: generate_article_from_gemini_def emoji_genai_def py_or_def str_eval)

lemma emoji_article_structured:
  "structured ascii_pylib (u ''cats'') (u ''Summary: '' @ [128512, 58]) =
     u ''Summary: '' @ [128512, 58]"
  by (simp add: structured_def required_sections_def u_def sublist_code(3))

lemma emoji_article_rejected:
  "fst (create_pdf_from_article ascii_pylib (u ''Summary: '' @ [128512, 58]) (u ''cats'')
          example_world) = Inl (FPDFUnicodeEncodingException 128512)"
  by (simp add: create_pdf_from_article_def Let_def time_eval title_block_def title_text_def
        subtitle_def
        wrapped_lines_def wrapped_line_def looks_like_heading_def render_line_def
        heading_test_def splitlines.simps linebreak_def str_eval draw_eval lib_eval)

lemma emoji_not_error: "\<not> startswith (u ''Summary: '' @ [128512, 58]) (u ''ERROR:'')"
  by (simp add: str_eval)

lemma hello_article:
  "generate_article ascii_pylib hello_t5 [128512] =
     Inr (format_article ascii_pylib (u ''hello'') [128512])"
  by (simp add: generate_article_def hello_t5_def)

lemma emoji_title_rejected:
  "fst (create_pdf (title ascii_pylib [128512])
          (format_article ascii_pylib (u ''hello'') [128512]) example_world) =
     Inl (FPDFUnicodeEncodingException 128512)"
  by (simp add: create_pdf_def draw_eval lib_eval)

lemma emoji_not_blank: "strip [128512] \<noteq> []"
  by (simp add: str_eval)

text \<open>
  Claim C5, as amended. In the hosted variant (\<open>on_generate\<close>), whenever the article was
  generated and \<open>create_pdf_from_article\<close> raises, the caller receives no file and a text
  that starts with the message \<open>ERROR: Article generated but failed to create PDF\<close> and
  the exception's text and ends with the article as it went to the document; the text
  the model generated is part of it. In the local variant
  (\<open>generate_and_create_pdf\<close>), whenever the article was generated and \<open>create_pdf\<close>
  raises, the caller receives no file and the message \<open>Error generating article:\<close> with
  the exception's text, and nothing else: the article is not returned.
\<close>

theorem pdf_failure_degrades:
  "(strip topic0 \<noteq> [] \<and>
    article_text = generate_article_from_gemini L genai (strip topic0) \<and>
    \<not> startswith article_text (u ''ERROR:'') \<and>
    fst (create_pdf_from_article L (structured L (strip topic0) article_text)
           (strip topic0) w) = Inl e \<longrightarrow>
      fst (on_generate L genai topic0 w) =
        (u ''ERROR: Article generated but failed to create PDF: '' @ exn_str L e @ [10, 10] @
         u ''Article content below:'' @ [10, 10] @ structured L (strip topic0) article_text,
         None) \<and>
      sublist article_text (fst (fst (on_generate L genai topic0 w)))) \<and>
   (strip topic \<noteq> [] \<and> generate_article L t5 topic = Inr article \<and>
    fst (create_pdf (title L topic) article w') = Inl e' \<longrightarrow>
      fst (generate_and_create_pdf L t5 topic w') =
        (u ''Error generating article: '' @ exn_str L e', None))"
  using on_generate_pdf_failure [of topic0 article_text L genai w e]
    on_generate_pdf_failure_text [of topic0 article_text L genai w e]
    local_pdf_failure [of topic L t5 article w' e']
  by blast

theorem pdf_failure_degrades_witness:
  "fst (on_generate ascii_pylib emoji_genai (u ''cats'') example_world) =
        (u ''ERROR: Article generated but failed to create PDF: '' @
         exn_str ascii_pylib (FPDFUnicodeEncodingException 128512) @ [10, 10] @
         u ''Article content below:'' @ [10, 10] @ u ''Summary: '' @ [128512, 58], None) \<and>
   sublist (u ''Summary: '' @ [128512, 58])
     (fst (fst (on_generate ascii_pylib emoji_genai (u ''cats'') example_world))) \<and>
   fst (generate_and_create_pdf ascii_pylib hello_t5 [128512] example_world) =
        (u ''Error generating article: '' @
         exn_str ascii_pylib (FPDFUnicodeEncodingException 128512), None)"
proof -
  have a: "strip (u ''cats'') \<noteq> []"
    by (simp add: str_eval)
  have b: "u ''Summary: '' @ [128512, 58] =
      generate_article_from_gemini ascii_pylib emoji_genai (strip (u ''cats''))"
    by (simp add: emoji_article)
  have st: "structured ascii_pylib (strip (u ''cats'')) (u ''Summary: '' @ [128512, 58]) =
      u ''Summary: '' @ [128512, 58]"
    by (simp only: strip_cats emoji_article_structured)
  have c: "fst (create_pdf_from_article ascii_pylib
                 (structured ascii_pylib (strip (u ''cats'')) (u ''Summary: '' @ [128512, 58]))
                 (strip (u ''cats'')) example_world) =
      Inl (FPDFUnicodeEncodingException 128512)"
    by (simp only: strip_cats emoji_article_structured emoji_article_rejected)
  note T = pdf_failure_degrades [of "u ''cats''" "u ''Summary: '' @ [128512, 58]" ascii_pylib
      emoji_genai example_world "FPDFUnicodeEncodingException 128512" "[128512]" hello_t5
      "format_article ascii_pylib (u ''hello'') [128512]" example_world
      "FPDFUnicodeEncodingException 128512"]
  have "fst (on_generate ascii_pylib emoji_genai (u ''cats'') example_world) =
        (u ''ERROR: Article generated but failed to create PDF: '' @
         exn_str ascii_pylib (FPDFUnicodeEncodingException 128512) @ [10, 10] @
         u ''Article content below:'' @ [10, 10] @ u ''Summary: '' @ [128512, 58], None) \<and>
      sublist (u ''Summary: '' @ [128512, 58])
        (fst (fst (on_generate ascii_pylib emoji_genai (u ''cats'') example_world)))"
    using T a b c emoji_not_error unfolding st by blast
  moreover have "fst (generate_and_create_pdf ascii_pylib hello_t5 [128512] example_world) =
        (u ''Error generating article: '' @
         exn_str ascii_pylib (FPDFUnicodeEncodingException 128512), None)"
    using T hello_article emoji_title_rejected emoji_not_blank by blast
  ultimately show ?thesis
    by blast
qed

text \<open>
  The claim as it was worded (the article text is still returned) fails in the local
  variant. For the topic U+1F600 the article is generated, \<open>create_pdf\<close> raises on the
  title, and the caller receives the message alone: the generated text \<open>hello\<close> is
  nowhere in it.
\<close>

theorem local_pdf_failure_counterexample:
  "generate_article ascii_pylib hello_t5 [128512] =
     Inr (format_article ascii_pylib (u ''hello'') [128512]) \<and>
   fst (create_pdf (title ascii_pylib [128512])
          (format_article ascii_pylib (u ''hello'') [128512]) example_world) =
     Inl (FPDFUnicodeEncodingException 128512) \<and>
   generate_and_create_pdf ascii_pylib hello_t5 [128512] example_world =
     ((u ''Error generating article: Character '' @ [34, 128512, 34] @
       u '' is outside the range of characters supported by the font used'', None),
      example_world) \<and>
   \<not> sublist (u ''hello'')
       (u ''Error generating article: Character '' @ [34, 128512, 34] @
        u '' is outside the range of characters supported by the font used'')"
  by (simp add: hello_article emoji_title_rejected)
     (simp add: generate_and_create_pdf_def generate_article_def hello_t5_def create_pdf_def
        str_eval draw_eval lib_eval sublist_code(3))

subsection \<open>When the generation fails\<close>





subsection \<open>The document that is saved\<close>

lemma digit_latin1: "latin1 (digit n)"
proof -
  have "n mod 10 < 10"
    by simp
  then show ?thesis
    unfolding latin1_def digit_def by arith
qed

lemma month_name_latin1: "list_all latin1 (month_name m)"
  by (simp add: month_name_def u_def latin1_def)

lemma strftime_long_latin1: "list_all latin1 (strftime_long t)"
  by (simp add: strftime_long_def pad2_def pad4_def digit_latin1 month_name_latin1)
     (simp add: latin1_def)

lemma normalize_text_ok: "list_all latin1 txt \<Longrightarrow> normalize_text txt = Inr txt"
  by (auto simp: normalize_text_def find_None_iff list_all_iff split: option.splits)

lemma normalize_text_fails:
  "\<not> list_all latin1 txt \<Longrightarrow> \<exists>c. normalize_text txt = Inl (FPDFUnicodeEncodingException c)"
  by (auto simp: normalize_text_def find_None_iff list_all_iff split: option.splits)

lemma cursor_Nil: "cursor [] = 0"
  by (simp add: cursor_def)

lemma cursor_append: "cursor (p @ q) = foldl advance (cursor p) q"
  by (simp add: cursor_def)

lemma subtitle_ok:
  assumes "cursor pdf < epw"
  shows "subtitle t pdf =
     Inr (pdf @ [MultiCell 0 6 (u ''Generated on: '' @ strftime_long t) AlignC, Ln 8,
                 SetTextColor 10 10 30])"
proof -
  have "list_all latin1 (u ''Generated on: '' @ strftime_long t)"
    using strftime_long_latin1 [of t] by (simp add: u_def latin1_def)
  then show ?thesis
    using assms by (simp add: subtitle_def multi_cell_def normalize_text_ok)
qed

text \<open>
  What an operation adds to the document depends on the document so far through the
  position of the cursor only.
\<close>

definition cursor_only :: "(pdf \<Rightarrow> exn + pdf) \<Rightarrow> bool" where
  "cursor_only f \<longleftrightarrow>
     (\<forall>p q. cursor p = cursor q \<longrightarrow>
        (\<exists>e. f p = Inl e \<and> f q = Inl e) \<or>
        (\<exists>ops. f p = Inr (p @ ops) \<and> f q = Inr (q @ ops)))"

lemma cursor_only_emit: "cursor_only (\<lambda>p. Inr (p @ ops))"
  unfolding cursor_only_def by blast

lemma cursor_only_multi_cell: "cursor_only (multi_cell w h txt al)"
  unfolding cursor_only_def multi_cell_def
  by (cases "normalize_text txt") auto

lemma cursor_only_after:
  assumes "cursor_only f"
  shows "cursor_only (\<lambda>p. f (p @ ops))"
  unfolding cursor_only_def
proof (intro allI impI)
  fix p q :: pdf
  assume "cursor p = cursor q"
  then have "cursor (p @ ops) = cursor (q @ ops)"
    by (simp add: cursor_append)
  then consider e where "f (p @ ops) = Inl e" "f (q @ ops) = Inl e"
    | ops' where "f (p @ ops) = Inr ((p @ ops) @ ops')" "f (q @ ops) = Inr ((q @ ops) @ ops')"
    using assms unfolding cursor_only_def by blast
  then show "(\<exists>e. f (p @ ops) = Inl e \<and> f (q @ ops) = Inl e) \<or>
        (\<exists>ops'. f (p @ ops) = Inr (p @ ops') \<and> f (q @ ops) = Inr (q @ ops'))"
  proof cases
    case 1
    then show ?thesis by blast
  next
    case 2
    then have "f (p @ ops) = Inr (p @ (ops @ ops'))" "f (q @ ops) = Inr (q @ (ops @ ops'))"
      by simp_all
    then show ?thesis by blast
  qed
qed

lemma cursor_only_then:
  assumes "cursor_only f" and "cursor_only g"
  shows "cursor_only (\<lambda>p. case f p of Inl e \<Rightarrow> Inl e | Inr p' \<Rightarrow> g p')"
  unfolding cursor_only_def
proof (intro allI impI)
  fix p q :: pdf
  assume c: "cursor p = cursor q"
  let ?h = "\<lambda>p. case f p of Inl e \<Rightarrow> Inl e | Inr p' \<Rightarrow> g p'"
  from c consider e where "f p = Inl e" "f q = Inl e"
    | ops where "f p = Inr (p @ ops)" "f q = Inr (q @ ops)"
    using assms(1) unfolding cursor_only_def by blast
  then show "(\<exists>e. ?h p = Inl e \<and> ?h q = Inl e) \<or>
        (\<exists>ops. ?h p = Inr (p @ ops) \<and> ?h q = Inr (q @ ops))"
  proof cases
    case 1
    then show ?thesis by simp
  next
    case 2
    have "cursor (p @ ops) = cursor (q @ ops)"
      using c by (simp add: cursor_append)
    then consider e where "g (p @ ops) = Inl e" "g (q @ ops) = Inl e"
      | ops' where "g (p @ ops) = Inr ((p @ ops) @ ops')" "g (q @ ops) = Inr ((q @ ops) @ ops')"
      using assms(2) unfolding cursor_only_def by blast
    then show ?thesis
    proof cases
      case 1
      with 2 show ?thesis by simp
    next
      case b: 2
      then have "?h p = Inr (p @ (ops @ ops'))" "?h q = Inr (q @ (ops @ ops'))"
        using 2 by simp_all
      then show ?thesis by blast
    qed
  qed
qed

lemma cursor_only_render_line: "cursor_only (render_line L line)"
proof -
  have h: "cursor_only (draw_heading s)" for s
    unfolding draw_heading_def
    by (rule cursor_only_then [OF cursor_only_after [OF cursor_only_multi_cell]
          cursor_only_emit])
  have b: "cursor_only (draw_bullet s)" for s
    unfolding draw_bullet_def by (rule cursor_only_after [OF cursor_only_multi_cell])
  have d: "cursor_only (draw_body s)" for s
    unfolding draw_body_def by (rule cursor_only_after [OF cursor_only_multi_cell])
  have "render_line L line = (\<lambda>p. Inr (p @ [Ln 4])) \<or>
        render_line L line = draw_heading (strip (rstrip_colon line)) \<or>
        render_line L line = draw_bullet line \<or> render_line L line = draw_body line"
    by (auto simp: render_line_def fun_eq_iff)
  then show ?thesis
    using h b d cursor_only_emit [of "[Ln 4]"] by auto
qed

lemma cursor_only_render_lines: "cursor_only (render_lines L ls)"
proof (induction ls)
  case Nil
  have "render_lines L [] = (\<lambda>p. Inr (p @ []))"
    by (simp add: fun_eq_iff)
  then show ?case
    using cursor_only_emit [of "[]"] by simp
next
  case (Cons line ls)
  have "render_lines L (line # ls) =
      (\<lambda>p. case render_line L line p of Inl e \<Rightarrow> Inl e | Inr p' \<Rightarrow> render_lines L ls p')"
    by (simp add: fun_eq_iff)
  then show ?case
    using cursor_only_then [OF cursor_only_render_line [of L line] Cons] by simp
qed

lemma render_lines_from_margin:
  assumes "cursor pdf = 0"
  shows "render_lines L ls pdf =
     (case render_lines L ls [] of Inl e \<Rightarrow> Inl e | Inr ops \<Rightarrow> Inr (pdf @ ops))"
proof -
  have "cursor [] = cursor pdf"
    using assms by (simp add: cursor_Nil)
  then consider e where "render_lines L ls [] = Inl e" "render_lines L ls pdf = Inl e"
    | ops where "render_lines L ls [] = Inr ([] @ ops)" "render_lines L ls pdf = Inr (pdf @ ops)"
    using cursor_only_render_lines [of L ls] unfolding cursor_only_def by blast
  then show ?thesis
    by cases simp_all
qed

text \<open>
  The instructions of a document: the title block, the subtitle with the time \<open>t\<close>, and
  the instructions \<open>ops\<close> of the body.
\<close>

definition document :: "ustr \<Rightarrow> datetime \<Rightarrow> pdf \<Rightarrow> pdf" where
  "document topic t ops =
     [SetAutoPageBreak True 15, AddPage, SetFont Helvetica Bold 20, SetTextColor 40 40 80,
      MultiCell 0 10 (title_text topic) AlignC, Ln 4, SetFont Helvetica Regular 10,
      SetTextColor 90 90 110,
      MultiCell 0 6 (u ''Generated on: '' @ strftime_long t) AlignC,
      Ln 8, SetTextColor 10 10 30] @ ops"

lemma title_block_ok:
  "list_all latin1 (title_text topic) \<Longrightarrow>
   title_block topic =
     Inr [SetAutoPageBreak True 15, AddPage, SetFont Helvetica Bold 20, SetTextColor 40 40 80,
          MultiCell 0 10 (title_text topic) AlignC, Ln 4, SetFont Helvetica Regular 10,
          SetTextColor 90 90 110]"
  by (simp add: title_block_def multi_cell_def normalize_text_ok cursor_def epw_def)

lemma subtitle_after_title:
  "subtitle t
     [SetAutoPageBreak True 15, AddPage, SetFont Helvetica Bold 20, SetTextColor 40 40 80,
      MultiCell 0 10 txt AlignC, Ln 4, SetFont Helvetica Regular 10, SetTextColor 90 90 110] =
   Inr [SetAutoPageBreak True 15, AddPage, SetFont Helvetica Bold 20, SetTextColor 40 40 80,
        MultiCell 0 10 txt AlignC, Ln 4, SetFont Helvetica Regular 10, SetTextColor 90 90 110,
        MultiCell 0 6 (u ''Generated on: '' @ strftime_long t) AlignC, Ln 8,
        SetTextColor 10 10 30]"
  by (subst subtitle_ok) (simp_all add: cursor_def epw_def)

lemma render_after_subtitle:
  "render_lines L ls
     [SetAutoPageBreak True 15, AddPage, SetFont Helvetica Bold 20, SetTextColor 40 40 80,
      MultiCell 0 10 txt AlignC, Ln 4, SetFont Helvetica Regular 10, SetTextColor 90 90 110,
      MultiCell 0 6 sub AlignC, Ln 8, SetTextColor 10 10 30] =
   (case render_lines L ls [] of
      Inl e \<Rightarrow> Inl e
    | Inr ops \<Rightarrow>
        Inr ([SetAutoPageBreak True 15, AddPage, SetFont Helvetica Bold 20,
              SetTextColor 40 40 80, MultiCell 0 10 txt AlignC, Ln 4,
              SetFont Helvetica Regular 10, SetTextColor 90 90 110,
              MultiCell 0 6 sub AlignC, Ln 8, SetTextColor 10 10 30] @ ops))"
  by (rule render_lines_from_margin) (simp add: cursor_def)

lemma create_success:
  assumes "list_all latin1 (title_text topic)"
    and "render_lines L (wrapped_lines L body) [] = Inr ops"
  shows "create_pdf_from_article L body topic w =
    (Inr (filepath L topic (strftime_stamp (clock w (ticks w)))),
     w\<lparr>ticks := ticks w + 2,
        files := (files w)(filepath L topic (strftime_stamp (clock w (ticks w))) \<mapsto>
          document topic (clock w (ticks w + 1)) ops)\<rparr>)"
  using assms(2)
  by (simp add: create_pdf_from_article_def Let_def title_block_ok [OF assms(1)]
        subtitle_after_title render_after_subtitle now_def pdf_output_def document_def)

lemma create_title_fails:
  assumes "\<not> list_all latin1 (title_text topic)"
  shows "\<exists>c. create_pdf_from_article L body topic w =
           (Inl (FPDFUnicodeEncodingException c), w\<lparr>ticks := ticks w + 1\<rparr>)"
proof -
  obtain c where "normalize_text (title_text topic) = Inl (FPDFUnicodeEncodingException c)"
    using normalize_text_fails [OF assms] by blast
  then have "title_block topic = Inl (FPDFUnicodeEncodingException c)"
    by (simp add: title_block_def multi_cell_def)
  then show ?thesis
    by (simp add: create_pdf_from_article_def Let_def now_def)
qed

lemma create_title_raises:
  assumes "normalize_text (title_text topic) = Inl e"
  shows "create_pdf_from_article L body topic w = (Inl e, w\<lparr>ticks := ticks w + 1\<rparr>)"
proof -
  have "title_block topic = Inl e"
    using assms by (simp add: title_block_def multi_cell_def)
  then show ?thesis
    by (simp add: create_pdf_from_article_def Let_def now_def)
qed

lemma create_render_fails:
  assumes "list_all latin1 (title_text topic)"
    and "render_lines L (wrapped_lines L body) [] = Inl e"
  shows "create_pdf_from_article L body topic w = (Inl e, w\<lparr>ticks := ticks w + 2\<rparr>)"
  using assms(2)
  by (simp add: create_pdf_from_article_def Let_def title_block_ok [OF assms(1)]
        subtitle_after_title render_after_subtitle now_def)

lemma create_Inr:
  assumes "fst (create_pdf_from_article L body topic w) = Inr p"
  shows "list_all latin1 (title_text topic) \<and>
         (\<exists>ops. render_lines L (wrapped_lines L body) [] = Inr ops)"
proof -
  have t: "list_all latin1 (title_text topic)"
  proof (rule ccontr)
    assume "\<not> list_all latin1 (title_text topic)"
    from create_title_fails [OF this, of L body w] assms show False
      by auto
  qed
  have "\<exists>ops. render_lines L (wrapped_lines L body) [] = Inr ops"
  proof (cases "render_lines L (wrapped_lines L body) []")
    case (Inl e)
    from create_render_fails [OF t Inl, of w] assms show ?thesis
      by simp
  next
    case (Inr ops)
    then show ?thesis by blast
  qed
  with t show ?thesis by blast
qed

lemma cats_title: "list_all latin1 (title_text (u ''Cats''))"
  by (simp add: title_text_def str_eval latin1_def)

lemma summary_ops:
  "render_lines ascii_pylib (wrapped_lines ascii_pylib (u ''Summary:'')) [] =
     Inr [SetFont Helvetica Bold 14, SetTextColor 40 40 80,
          MultiCell 0 8 (u ''Summary'') AlignDefault,
          Ln 2, SetFont Helvetica Regular 11, SetTextColor 10 10 30]"
  by (simp add: wrapped_lines_def wrapped_line_def looks_like_heading_def render_line_def
        heading_test_def splitlines.simps linebreak_def str_eval draw_eval)

lemma cats_path:
  "filepath ascii_pylib (u ''Cats'') (u ''20240307_090500'') =
     u ''outputs/article_Cats_20240307_090500.pdf''"
  "filepath ascii_pylib (u ''Cats'') (u ''20240307_090502'') =
     u ''outputs/article_Cats_20240307_090502.pdf''"
  by (simp_all add: filepath_def filename_def safe_topic_def str_eval lib_eval)

lemma example_ticks: "ticks example_world = 0"
  by (simp add: example_world_def)

lemma example_stamps:
  "strftime_stamp (clock example_world 0) = u ''20240307_090500''"
  "strftime_stamp (clock example_world 2) = u ''20240307_090502''"
  "strftime_long (clock example_world 1) = u ''March 07, 2024 09:05:01''"
  "strftime_long (clock example_world 3) = u ''March 07, 2024 09:05:03''"
  by (simp_all add: time_eval u_def)

lemma small_sums: "(0::nat) + 1 = 1" "(0::nat) + 2 = 2" "(0::nat) + 3 = 3" "(2::nat) + 1 = 3"
  "(2::nat) + 2 = 4"
  by simp_all

lemma repeated_success:
  assumes "create_pdf_from_article L body topic w = (Inr p1, w1)"
  shows "\<exists>p2 w2 ops. create_pdf_from_article L body topic w1 = (Inr p2, w2) \<and>
           (p1 = p2 \<longleftrightarrow>
              strftime_stamp (clock w (ticks w)) = strftime_stamp (clock w (ticks w + 2))) \<and>
           files w1 p1 = Some (document topic (clock w (ticks w + 1)) ops) \<and>
           files w2 p2 = Some (document topic (clock w (ticks w + 3)) ops) \<and>
           (files w1 p1 = files w2 p2 \<longleftrightarrow>
              strftime_long (clock w (ticks w + 1)) = strftime_long (clock w (ticks w + 3)))"
proof -
  from assms have "fst (create_pdf_from_article L body topic w) = Inr p1"
    by simp
  from create_Inr [OF this] obtain ops where
    t: "list_all latin1 (title_text topic)" and
    r: "render_lines L (wrapped_lines L body) [] = Inr ops"
    by blast
  define q1 where "q1 = filepath L topic (strftime_stamp (clock w (ticks w)))"
  define q2 where "q2 = filepath L topic (strftime_stamp (clock w (ticks w + 2)))"
  define d1 where "d1 = document topic (clock w (ticks w + 1)) ops"
  define d2 where "d2 = document topic (clock w (ticks w + 3)) ops"
  have c1: "create_pdf_from_article L body topic w =
      (Inr q1, w\<lparr>ticks := ticks w + 2, files := (files w)(q1 \<mapsto> d1)\<rparr>)"
    using create_success [OF t r, of w] by (simp add: q1_def d1_def)
  with assms have p1: "p1 = q1"
    and w1: "w1 = w\<lparr>ticks := ticks w + 2, files := (files w)(q1 \<mapsto> d1)\<rparr>"
    by auto
  have cl: "clock w1 = clock w" and tk: "ticks w1 = ticks w + 2"
    by (simp_all add: w1)
  define w2 where "w2 = w1\<lparr>ticks := ticks w1 + 2, files := (files w1)(q2 \<mapsto> d2)\<rparr>"
  have "ticks w + 2 + 1 = ticks w + 3"
    by simp
  then have c2: "create_pdf_from_article L body topic w1 = (Inr q2, w2)"
    using create_success [OF t r, of w1] by (simp only: q2_def d2_def w2_def cl tk)
  have f1: "files w1 p1 = Some d1"
    by (simp add: w1 p1)
  have f2: "files w2 q2 = Some d2"
    by (simp add: w2_def)
  have n: "q1 = q2 \<longleftrightarrow>
      strftime_stamp (clock w (ticks w)) = strftime_stamp (clock w (ticks w + 2))"
    by (simp add: q1_def q2_def filepath_def filename_def)
  have d: "d1 = d2 \<longleftrightarrow>
      strftime_long (clock w (ticks w + 1)) = strftime_long (clock w (ticks w + 3))"
    by (simp add: d1_def d2_def document_def)
  have "create_pdf_from_article L body topic w1 = (Inr q2, w2) \<and>
      (p1 = q2 \<longleftrightarrow>
         strftime_stamp (clock w (ticks w)) = strftime_stamp (clock w (ticks w + 2))) \<and>
      files w1 p1 = Some (document topic (clock w (ticks w + 1)) ops) \<and>
      files w2 q2 = Some (document topic (clock w (ticks w + 3)) ops) \<and>
      (files w1 p1 = files w2 q2 \<longleftrightarrow>
         strftime_long (clock w (ticks w + 1)) = strftime_long (clock w (ticks w + 3)))"
  proof (intro conjI)
    show "create_pdf_from_article L body topic w1 = (Inr q2, w2)"
      by (rule c2)
    show "p1 = q2 \<longleftrightarrow>
        strftime_stamp (clock w (ticks w)) = strftime_stamp (clock w (ticks w + 2))"
      using n by (simp only: p1)
    show "files w1 p1 = Some (document topic (clock w (ticks w + 1)) ops)"
      using f1 by (simp only: d1_def)
    show "files w2 q2 = Some (document topic (clock w (ticks w + 3)) ops)"
      using f2 by (simp only: d2_def)
    show "files w1 p1 = files w2 q2 \<longleftrightarrow>
        strftime_long (clock w (ticks w + 1)) = strftime_long (clock w (ticks w + 3))"
      using d by (simp only: f1 f2 option.inject)
  qed
  then show ?thesis
    by blast
qed

lemma create_Inl:
  assumes "fst (create_pdf_from_article L body topic w) = Inl e"
  shows "normalize_text (title_text topic) = Inl e \<or>
         (list_all latin1 (title_text topic) \<and>
          render_lines L (wrapped_lines L body) [] = Inl e)"
proof (cases "list_all latin1 (title_text topic)")
  case False
  then obtain c where n: "normalize_text (title_text topic) = Inl (FPDFUnicodeEncodingException c)"
    using normalize_text_fails by blast
  from create_title_raises [OF n, of L body w] assms show ?thesis
    using n by simp
next
  case True
  show ?thesis
  proof (cases "render_lines L (wrapped_lines L body) []")
    case (Inl e')
    from create_render_fails [OF True Inl, of w] assms show ?thesis
      using True Inl by simp
  next
    case (Inr ops)
    from create_success [OF True Inr, of w] assms show ?thesis
      by simp
  qed
qed

lemma repeated_failure:
  assumes "create_pdf_from_article L body topic w = (Inl e, w1)"
  shows "\<exists>w2. create_pdf_from_article L body topic w1 = (Inl e, w2)"
proof -
  from assms have "fst (create_pdf_from_article L body topic w) = Inl e"
    by simp
  from create_Inl [OF this] show ?thesis
    using create_title_raises [of topic e L body w1]
      create_render_fails [of topic L body e w1] by blast
qed

text \<open>
  Claim C7, as amended. Two calls of \<open>create_pdf_from_article\<close> in a row with the same
  title and body both succeed or both fail. When the first has succeeded, the second
  succeeds too: the two names differ exactly when the two timestamps in the names
  differ (the first and the third reading of the clock, to the second); the two
  documents are the same exactly when the two timestamps in the subtitles agree (the
  second and the fourth reading), and they differ in nothing but the subtitle. When
  the first has raised, the second raises the same exception.
\<close>

theorem repeated_creation:
  "(create_pdf_from_article L body topic w = (Inr p1, w1) \<longrightarrow>
      (\<exists>p2 w2 ops. create_pdf_from_article L body topic w1 = (Inr p2, w2) \<and>
         (p1 = p2 \<longleftrightarrow>
            strftime_stamp (clock w (ticks w)) = strftime_stamp (clock w (ticks w + 2))) \<and>
         files w1 p1 = Some (document topic (clock w (ticks w + 1)) ops) \<and>
         files w2 p2 = Some (document topic (clock w (ticks w + 3)) ops) \<and>
         (files w1 p1 = files w2 p2 \<longleftrightarrow>
            strftime_long (clock w (ticks w + 1)) = strftime_long (clock w (ticks w + 3))))) \<and>
   (create_pdf_from_article L' body' topic' w' = (Inl e, w1') \<longrightarrow>
      (\<exists>w2'. create_pdf_from_article L' body' topic' w1' = (Inl e, w2')))"
  using repeated_success [of L body topic w p1 w1] repeated_failure [of L' body' topic' w' e w1']
  by blast

theorem repeated_creation_witness:
  "fst first_call = Inr (u ''outputs/article_Cats_20240307_090500.pdf'') \<and>
   (\<exists>p2 w2. second_call = (Inr p2, w2) \<and> p2 \<noteq> u ''outputs/article_Cats_20240307_090500.pdf'' \<and>
      files (snd first_call) (u ''outputs/article_Cats_20240307_090500.pdf'') \<noteq> files w2 p2) \<and>
   create_pdf_from_article ascii_pylib [] [128512] example_world =
     (Inl (FPDFUnicodeEncodingException 128512), example_world\<lparr>ticks := 1\<rparr>) \<and>
   (\<exists>w2. create_pdf_from_article ascii_pylib [] [128512] (example_world\<lparr>ticks := 1\<rparr>) =
     (Inl (FPDFUnicodeEncodingException 128512), w2))"
proof -
  have a: "fst first_call = Inr (u ''outputs/article_Cats_20240307_090500.pdf'')"
    unfolding first_call_def by (rule create_pdf_from_article_example)
  then have b: "create_pdf_from_article ascii_pylib (u ''Summary:'') (u ''Cats'') example_world =
      (Inr (u ''outputs/article_Cats_20240307_090500.pdf''), snd first_call)"
    unfolding first_call_def by (metis prod.collapse)
  have s1: "strftime_stamp (clock example_world (ticks example_world)) \<noteq>
      strftime_stamp (clock example_world (ticks example_world + 2))"
    unfolding example_ticks small_sums example_stamps by (simp add: u_def)
  have s2: "strftime_long (clock example_world (ticks example_world + 1)) \<noteq>
      strftime_long (clock example_world (ticks example_world + 3))"
    unfolding example_ticks small_sums example_stamps by (simp add: u_def)
  have f: "create_pdf_from_article ascii_pylib [] [128512] example_world =
     (Inl (FPDFUnicodeEncodingException 128512), example_world\<lparr>ticks := 1\<rparr>)"
    by (simp add: create_pdf_from_article_def Let_def title_block_def title_text_def now_def
          example_world_def str_eval draw_eval)
  note T = repeated_creation [of ascii_pylib "u ''Summary:''" "u ''Cats''" example_world
      "u ''outputs/article_Cats_20240307_090500.pdf''" "snd first_call"
      ascii_pylib "[]" "[128512]" example_world "FPDFUnicodeEncodingException 128512"
      "example_world\<lparr>ticks := 1\<rparr>"]
  have 1: "\<exists>p2 w2. second_call = (Inr p2, w2) \<and>
      p2 \<noteq> u ''outputs/article_Cats_20240307_090500.pdf'' \<and>
      files (snd first_call) (u ''outputs/article_Cats_20240307_090500.pdf'') \<noteq> files w2 p2"
    using T b s1 s2 unfolding second_call_def by metis
  have 2: "\<exists>w2. create_pdf_from_article ascii_pylib [] [128512] (example_world\<lparr>ticks := 1\<rparr>) =
     (Inl (FPDFUnicodeEncodingException 128512), w2)"
    using T f by blast
  show ?thesis
    using a 1 f 2 by blast
qed

text \<open>
  The claim as it was worded (distinct names, identical pages) fails for two calls whose
  four readings of the clock are a second apart: the names differ, and so do the pages,
  in the subtitle.
\<close>

theorem page_content_counterexample:
  "fst first_call = Inr (u ''outputs/article_Cats_20240307_090500.pdf'') \<and>
   fst second_call = Inr (u ''outputs/article_Cats_20240307_090502.pdf'') \<and>
   files (snd first_call) (u ''outputs/article_Cats_20240307_090500.pdf'') =
     Some (document (u ''Cats'') (clock example_world 1)
       [SetFont Helvetica Bold 14, SetTextColor 40 40 80,
        MultiCell 0 8 (u ''Summary'') AlignDefault,
        Ln 2, SetFont Helvetica Regular 11, SetTextColor 10 10 30]) \<and>
   files (snd second_call) (u ''outputs/article_Cats_20240307_090502.pdf'') =
     Some (document (u ''Cats'') (clock example_world 3)
       [SetFont Helvetica Bold 14, SetTextColor 40 40 80,
        MultiCell 0 8 (u ''Summary'') AlignDefault,
        Ln 2, SetFont Helvetica Regular 11, SetTextColor 10 10 30]) \<and>
   strftime_long (clock example_world 1) = u ''March 07, 2024 09:05:01'' \<and>
   strftime_long (clock example_world 3) = u ''March 07, 2024 09:05:03'' \<and>
   files (snd first_call) (u ''outputs/article_Cats_20240307_090500.pdf'') \<noteq>
     files (snd second_call) (u ''outputs/article_Cats_20240307_090502.pdf'')"
proof -
  have f: "first_call = (Inr (u ''outputs/article_Cats_20240307_090500.pdf''),
      example_world\<lparr>ticks := 2,
        files := (files example_world)(u ''outputs/article_Cats_20240307_090500.pdf'' \<mapsto>
          document (u ''Cats'') (clock example_world 1)
            [SetFont Helvetica Bold 14, SetTextColor 40 40 80,
             MultiCell 0 8 (u ''Summary'') AlignDefault,
             Ln 2, SetFont Helvetica Regular 11, SetTextColor 10 10 30])\<rparr>)"
    using create_success [OF cats_title summary_ops, of example_world]
    by (simp only: first_call_def example_ticks small_sums example_stamps cats_path)
  have k: "clock (snd first_call) = clock example_world" "ticks (snd first_call) = 2"
    by (simp_all add: f)
  have s: "second_call = (Inr (u ''outputs/article_Cats_20240307_090502.pdf''),
      (snd first_call)\<lparr>ticks := 4,
        files := (files (snd first_call))(u ''outputs/article_Cats_20240307_090502.pdf'' \<mapsto>
          document (u ''Cats'') (clock example_world 3)
            [SetFont Helvetica Bold 14, SetTextColor 40 40 80,
             MultiCell 0 8 (u ''Summary'') AlignDefault,
             Ln 2, SetFont Helvetica Regular 11, SetTextColor 10 10 30])\<rparr>)"
    using create_success [OF cats_title summary_ops, of "snd first_call"]
    by (simp only: second_call_def k small_sums example_stamps cats_path)
  have ne: "u ''March 07, 2024 09:05:01'' \<noteq> u ''March 07, 2024 09:05:03''"
    by (simp add: u_def)
  have d: "document (u ''Cats'') (clock example_world 1)
            [SetFont Helvetica Bold 14, SetTextColor 40 40 80,
             MultiCell 0 8 (u ''Summary'') AlignDefault,
             Ln 2, SetFont Helvetica Regular 11, SetTextColor 10 10 30] \<noteq>
           document (u ''Cats'') (clock example_world 3)
            [SetFont Helvetica Bold 14, SetTextColor 40 40 80,
             MultiCell 0 8 (u ''Summary'') AlignDefault,
             Ln 2, SetFont Helvetica Regular 11, SetTextColor 10 10 30]"
    unfolding document_def example_stamps using ne by simp
  show ?thesis
  proof (intro conjI)
    show "fst first_call = Inr (u ''outputs/article_Cats_20240307_090500.pdf'')"
      by (simp only: f fst_conv)
    show "fst second_call = Inr (u ''outputs/article_Cats_20240307_090502.pdf'')"
      by (simp only: s fst_conv)
    show "strftime_long (clock example_world 1) = u ''March 07, 2024 09:05:01''"
      by (rule example_stamps(3))
    show "strftime_long (clock example_world 3) = u ''March 07, 2024 09:05:03''"
      by (rule example_stamps(4))
  qed (use d in \<open>simp_all add: f s\<close>)
qed

subsection \<open>The empty body\<close>

text \<open>
  Claim C9, as amended. For the empty body and a title that Latin-1 can encode (the
  stripped topic, or the default for a blank topic), \<open>create_pdf_from_article\<close> does
  not raise: it returns the path of a file it has saved, and the document saved has the
  title block, the subtitle with the time of generation and nothing of a body.
\<close>

theorem empty_body_document:
  assumes "list_all latin1 (title_text topic)"
  shows "create_pdf_from_article L [] topic w =
     (Inr (filepath L topic (strftime_stamp (clock w (ticks w)))),
      w\<lparr>ticks := ticks w + 2,
         files := (files w)(filepath L topic (strftime_stamp (clock w (ticks w))) \<mapsto>
           [SetAutoPageBreak True 15, AddPage, SetFont Helvetica Bold 20, SetTextColor 40 40 80,
            MultiCell 0 10 (title_text topic) AlignC, Ln 4, SetFont Helvetica Regular 10,
            SetTextColor 90 90 110,
            MultiCell 0 6 (u ''Generated on: '' @ strftime_long (clock w (ticks w + 1))) AlignC,
            Ln 8, SetTextColor 10 10 30])\<rparr>)"
proof -
  have "render_lines L (wrapped_lines L []) [] = Inr []"
    by (simp add: wrapped_lines_def splitlines.simps)
  from create_success [OF assms this, of w] show ?thesis
    by (simp only: document_def append_Nil2)
qed

theorem empty_body_document_witness:
  "list_all latin1 (title_text (u ''Cats'')) \<and>
   fst (create_pdf_from_article ascii_pylib [] (u ''Cats'') example_world) =
     Inr (u ''outputs/article_Cats_20240307_090500.pdf'') \<and>
   files (snd (create_pdf_from_article ascii_pylib [] (u ''Cats'') example_world))
     (u ''outputs/article_Cats_20240307_090500.pdf'') =
     Some [SetAutoPageBreak True 15, AddPage, SetFont Helvetica Bold 20, SetTextColor 40 40 80,
           MultiCell 0 10 (u ''Cats'') AlignC, Ln 4, SetFont Helvetica Regular 10,
           SetTextColor 90 90 110,
           MultiCell 0 6 (u ''Generated on: March 07, 2024 09:05:01'') AlignC,
           Ln 8, SetTextColor 10 10 30]"
proof -
  have tt: "title_text (u ''Cats'') = u ''Cats''"
    by (simp add: title_text_def str_eval)
  have g: "u ''Generated on: '' @ u ''March 07, 2024 09:05:01'' = u ''Generated on: March 07, 2024 09:05:01''"
    by (simp add: u_def)
  show ?thesis
    using cats_title
    unfolding empty_body_document [OF cats_title, of ascii_pylib example_world]
      example_ticks small_sums example_stamps cats_path tt g
    by simp
qed

text \<open>
  The claim as it was worded (no exception and a file for the empty body, whatever the
  title) fails for a title outside Latin-1: with the topic U+1F600 the title's cell is
  rejected, the call raises, and no file is written.
\<close>

theorem empty_body_counterexample:
  "create_pdf_from_article ascii_pylib [] [128512] example_world =
     (Inl (FPDFUnicodeEncodingException 128512), example_world\<lparr>ticks := 1\<rparr>) \<and>
   files (example_world\<lparr>ticks := 1\<rparr>) = files example_world"
  by (simp add: create_pdf_from_article_def Let_def title_block_def title_text_def now_def
        example_world_def str_eval draw_eval)

subsection \<open>What the first loop keeps of the text\<close>

lemma visible_append: "visible (a @ b) = visible a @ visible b"
  by (simp add: visible_def)

lemma visible_dropWhile: "visible (dropWhile isspace s) = visible s"
  by (induction s) (simp_all add: visible_def)

lemma visible_rev: "visible (rev s) = rev (visible s)"
  by (simp add: visible_def rev_filter)

lemma visible_strip: "visible (strip s) = visible s"
  by (simp add: strip_def rstrip_def lstrip_def visible_rev visible_dropWhile)

lemma visible_blank: "list_all isspace s \<Longrightarrow> visible s = []"
  by (induction s) (simp_all add: visible_def)

lemma linebreak_isspace: "linebreak c \<Longrightarrow> isspace c"
  unfolding linebreak_def isspace_def by linarith

lemma visible_Cons_space: "isspace c \<Longrightarrow> visible (c # s) = visible s"
  by (simp add: visible_def)

lemma visible_after_break:
  "s = [] \<or> linebreak (hd s) \<Longrightarrow> visible (after_break s) = visible s"
proof (induction s rule: after_break.induct)
  case (1 a b r)
  then have a: "isspace a" by (simp add: linebreak_isspace)
  show ?case
  proof (cases "a = 13 \<and> b = 10")
    case True
    then have "linebreak b" by (simp add: linebreak_def)
    then have "isspace b" by (rule linebreak_isspace)
    with a True show ?thesis by (simp add: visible_Cons_space)
  next
    case False
    with a show ?thesis by (auto simp: visible_Cons_space)
  qed
next
  case (2 a)
  then have "isspace a" by (simp add: linebreak_isspace)
  then show ?case by (simp add: visible_def)
next
  case 3
  show ?case by simp
qed

lemma visible_splitlines: "visible (concat (splitlines s)) = visible s"
proof (induction s rule: splitlines.induct)
  case (1 s)
  show ?case
  proof (cases "s = []")
    case True
    then show ?thesis by (simp add: splitlines.simps)
  next
    case False
    let ?d = "dropWhile (\<lambda>c. \<not> linebreak c) s"
    have h: "?d = [] \<or> linebreak (hd ?d)"
      using hd_dropWhile [of "\<lambda>c. \<not> linebreak c" s] by auto
    have "visible (concat (splitlines s)) =
        visible (takeWhile (\<lambda>c. \<not> linebreak c) s) @ visible (concat (splitlines (after_break ?d)))"
      using False by (subst splitlines.simps) (simp add: visible_append)
    also have "\<dots> = visible (takeWhile (\<lambda>c. \<not> linebreak c) s) @ visible ?d"
      using "1.IH" [OF False] visible_after_break [OF h] by simp
    also have "\<dots> = visible s"
      by (simp add: visible_append [symmetric])
    finally show ?thesis .
  qed
qed

lemma isspace_tab: "isspace 9" and isspace_space: "isspace 32"
  by (simp_all add: isspace_def)

lemma visible_spaces: "visible (replicate n 32) = []"
  by (induction n) (simp_all add: visible_def isspace_space)

lemma visible_expandtabs: "visible (expandtabs_from ts j s) = visible s"
proof (induction ts j s rule: expandtabs_from.induct)
  case (1 ts j)
  show ?case by simp
next
  case (2 ts j c s)
  show ?case
  proof (cases "c = 9")
    case True
    then have "visible (c # s) = visible s"
      by (simp add: visible_def isspace_tab)
    then show ?thesis
      using True "2.IH"(1,2) by (simp add: visible_append visible_spaces)
  next
    case False
    then show ?thesis
      using "2.IH"(3) by (simp add: visible_def)
  qed
qed

lemma concat_wordsep_split: "concat (wordsep_split L b r) = r"
proof (induction L b r rule: wordsep_split.induct)
  case (1 L b r)
  show ?case
  proof (cases "r = []")
    case True
    then show ?thesis by (simp add: wordsep_split.simps)
  next
    case False
    then show ?thesis
      using "1.IH" [OF False] by (subst wordsep_split.simps) simp
  qed
qed

lemma concat_filter_nonempty: "concat (filter (\<lambda>c. c \<noteq> []) xs) = concat xs"
  by (induction xs) simp_all

lemma fill_concat: "concat (fst (fill w n cs)) @ concat (snd (fill w n cs)) = concat cs"
proof -
  obtain l r where f: "fill w n cs = (l, r)"
    by (cases "fill w n cs") auto
  then have "cs = l @ r"
    by (rule fill_append)
  then show ?thesis
    using f by simp
qed

lemma visible_is_blank: "is_blank c \<Longrightarrow> visible c = []"
  by (simp add: is_blank_def strip_eq_Nil visible_blank)

lemma visible_concat_butlast:
  "l \<noteq> [] \<Longrightarrow> is_blank (last l) \<Longrightarrow> visible (concat (butlast l)) = visible (concat l)"
proof -
  assume "l \<noteq> []" and b: "is_blank (last l)"
  then have "concat l = concat (butlast l @ [last l])" by simp
  also have "\<dots> = concat (butlast l) @ last l" by (simp del: append_butlast_last_id)
  finally show ?thesis using visible_is_blank [OF b] by (simp add: visible_append)
qed

lemma handle_long_word_concat:
  "cs \<noteq> [] \<Longrightarrow> concat (fst (handle_long_word w l cs)) @ concat (snd (handle_long_word w l cs)) = concat l @ concat cs"
  by (cases cs) (simp_all add: handle_long_word_def Let_def)

lemma wrap_step_visible:
  assumes "chunks \<noteq> []"
  shows "visible (concat (fst (wrap_step w started chunks))) @
         visible (concat (snd (wrap_step w started chunks))) = visible (concat chunks)"
proof -
  define chunks1 where "chunks1 = (if is_blank (hd chunks) \<and> started then tl chunks else chunks)"
  define filled where "filled = fill w 0 chunks1"
  define broken where "broken = (if snd filled \<noteq> [] \<and> w < length (hd (snd filled))
                    then handle_long_word w (fst filled) (snd filled) else filled)"
  have a: "visible (concat chunks1) = visible (concat chunks)"
    using assms visible_is_blank [of "hd chunks"]
    by (cases chunks) (auto simp: chunks1_def visible_append)
  have b: "concat (fst filled) @ concat (snd filled) = concat chunks1"
    unfolding filled_def by (rule fill_concat)
  have c: "concat (fst broken) @ concat (snd broken) = concat chunks1"
    using b handle_long_word_concat [of "snd filled" w "fst filled"]
    by (auto simp: broken_def)
  have d: "visible (concat (if fst broken \<noteq> [] \<and> is_blank (last (fst broken)) then butlast (fst broken) else fst broken))
      = visible (concat (fst broken))"
    using visible_concat_butlast [of "fst broken"] by simp
  have "wrap_step w started chunks =
      (if fst broken \<noteq> [] \<and> is_blank (last (fst broken)) then butlast (fst broken) else fst broken, snd broken)"
    by (simp add: wrap_step_def Let_def chunks1_def filled_def broken_def)
  then have "visible (concat (fst (wrap_step w started chunks))) @
         visible (concat (snd (wrap_step w started chunks))) =
      visible (concat (fst broken)) @ visible (concat (snd broken))"
    using d by simp
  also have "\<dots> = visible (concat (fst broken) @ concat (snd broken))"
    by (simp add: visible_append)
  also have "\<dots> = visible (concat chunks)"
    using a c by simp
  finally show ?thesis .
qed

lemma visible_wrap_loop: "visible (concat (wrap_loop w started cs)) = visible (concat cs)"
proof (induction w started cs rule: wrap_loop.induct)
  case (1 w started chunks)
  show ?case
  proof (cases "chunks = []")
    case True
    then show ?thesis by (simp add: wrap_loop.simps)
  next
    case False
    note step = wrap_step_visible [OF False, of w started]
    show ?thesis
    proof (cases "fst (wrap_step w started chunks) \<noteq> []")
      case True
      have "wrap_loop w started chunks = concat (fst (wrap_step w started chunks)) #
             wrap_loop w True (snd (wrap_step w started chunks))"
        using False True by (subst wrap_loop.simps) simp
      then show ?thesis
        using "1.IH"(1) [OF False True] step by (simp add: visible_append)
    next
      case f: False
      have "wrap_loop w started chunks = wrap_loop w started (snd (wrap_step w started chunks))"
        using False f by (subst wrap_loop.simps) simp
      then show ?thesis
        using "1.IH"(2) [OF False f] step f by (simp add: visible_def)
    qed
  qed
qed

lemma visible_wrapper_wrap: "visible (concat (wrapper_wrap L s)) = visible s"
  by (simp add: wrapper_wrap_def split_chunks_def visible_wrap_loop concat_filter_nonempty
        concat_wordsep_split expandtabs_def visible_expandtabs)

lemma visible_wrapped_line: "visible (concat (wrapped_line L line)) = visible line"
proof (cases "strip line = []")
  case True
  then have "visible line = []"
    by (simp add: strip_eq_Nil visible_blank)
  with True show ?thesis
    by (simp add: wrapped_line_def visible_def)
next
  case False
  then show ?thesis
    using visible_strip [of line] by (simp add: wrapped_line_def visible_wrapper_wrap)
qed

lemma visible_concat_map:
  "(\<And>x. visible (concat (f x)) = visible x) \<Longrightarrow>
   visible (concat (concat (map f xs))) = visible (concat xs)"
  by (induction xs) (simp_all add: visible_append)

lemma visible_wrapped_lines: "visible (concat (wrapped_lines L body)) = visible body"
  by (simp add: wrapped_lines_def visible_concat_map [of "wrapped_line L"] visible_wrapped_line
        visible_splitlines)

lemma weave_prepend: "weave ((a @ g) # gs) ls = a @ weave (g # gs) ls"
  by (cases ls) simp_all

lemma is_blank_isspace: "is_blank c \<longleftrightarrow> list_all isspace c"
  by (simp add: is_blank_def strip_eq_Nil)

lemma wrap_step_gaps:
  assumes "chunks \<noteq> []"
  shows "\<exists>g1 g2. list_all isspace g1 \<and> list_all isspace g2 \<and>
           concat chunks = g1 @ concat (fst (wrap_step w started chunks)) @ g2 @
                           concat (snd (wrap_step w started chunks))"
proof -
  define chunks1 where "chunks1 = (if is_blank (hd chunks) \<and> started then tl chunks else chunks)"
  define filled where "filled = fill w 0 chunks1"
  define broken where "broken = (if snd filled \<noteq> [] \<and> w < length (hd (snd filled))
                    then handle_long_word w (fst filled) (snd filled) else filled)"
  define cur where "cur = (if fst broken \<noteq> [] \<and> is_blank (last (fst broken))
                           then butlast (fst broken) else fst broken)"
  define g1 where "g1 = (if is_blank (hd chunks) \<and> started then hd chunks else [])"
  define g2 where "g2 = (if fst broken \<noteq> [] \<and> is_blank (last (fst broken))
                           then last (fst broken) else [])"
  have a: "concat chunks = g1 @ concat chunks1"
    using assms by (cases chunks) (auto simp: chunks1_def g1_def)
  have b: "concat (fst filled) @ concat (snd filled) = concat chunks1"
    unfolding filled_def by (rule fill_concat)
  have c: "concat (fst broken) @ concat (snd broken) = concat chunks1"
    using b handle_long_word_concat [of "snd filled" w "fst filled"]
    by (auto simp: broken_def)
  have d: "concat (fst broken) = concat cur @ g2"
  proof (cases "fst broken \<noteq> [] \<and> is_blank (last (fst broken))")
    case True
    then have "concat (fst broken) = concat (butlast (fst broken) @ [last (fst broken)])"
      by simp
    also have "\<dots> = concat (butlast (fst broken)) @ last (fst broken)"
      by (simp del: append_butlast_last_id)
    finally show ?thesis using True by (simp add: cur_def g2_def)
  next
    case False
    then show ?thesis by (auto simp: cur_def g2_def)
  qed
  have e: "wrap_step w started chunks = (cur, snd broken)"
    by (simp add: wrap_step_def Let_def chunks1_def filled_def broken_def cur_def)
  have "list_all isspace g1" "list_all isspace g2"
    by (auto simp: g1_def g2_def is_blank_isspace)
  moreover have "concat chunks = g1 @ concat (fst (wrap_step w started chunks)) @ g2 @
                           concat (snd (wrap_step w started chunks))"
    using a c d by (simp add: e)
  ultimately show ?thesis by blast
qed

lemma wrap_loop_weave:
  "\<exists>gaps. length gaps = Suc (length (wrap_loop w started cs)) \<and>
          list_all (list_all isspace) gaps \<and>
          weave gaps (wrap_loop w started cs) = concat cs"
proof (induction w started cs rule: wrap_loop.induct)
  case (1 w started chunks)
  show ?case
  proof (cases "chunks = []")
    case True
    have "length [[]::ustr] = Suc (length (wrap_loop w started chunks)) \<and>
          list_all (list_all isspace) [[]] \<and>
          weave [[]] (wrap_loop w started chunks) = concat chunks"
      using True by (simp add: wrap_loop.simps)
    then show ?thesis by blast
  next
    case False
    from wrap_step_gaps [OF False, of w started] obtain g1 g2 where
      g: "list_all isspace g1" "list_all isspace g2" and
      c: "concat chunks = g1 @ concat (fst (wrap_step w started chunks)) @ g2 @
                           concat (snd (wrap_step w started chunks))"
      by blast
    show ?thesis
    proof (cases "fst (wrap_step w started chunks) \<noteq> []")
      case True
      have e: "wrap_loop w started chunks = concat (fst (wrap_step w started chunks)) #
             wrap_loop w True (snd (wrap_step w started chunks))"
        using False True by (subst wrap_loop.simps) simp
      from "1.IH"(1) [OF False True] obtain gaps where
        l: "length gaps = Suc (length (wrap_loop w True (snd (wrap_step w started chunks))))" and
        s: "list_all (list_all isspace) gaps" and
        v: "weave gaps (wrap_loop w True (snd (wrap_step w started chunks))) =
             concat (snd (wrap_step w started chunks))"
        by blast
      from l obtain g0 gs where gaps: "gaps = g0 # gs" by (cases gaps) auto
      have "length (g1 # (g2 @ g0) # gs) = Suc (length (wrap_loop w started chunks)) \<and>
          list_all (list_all isspace) (g1 # (g2 @ g0) # gs) \<and>
          weave (g1 # (g2 @ g0) # gs) (wrap_loop w started chunks) = concat chunks"
        using l s v g c by (simp add: e gaps weave_prepend)
      then show ?thesis by blast
    next
      case f: False
      have e: "wrap_loop w started chunks = wrap_loop w started (snd (wrap_step w started chunks))"
        using False f by (subst wrap_loop.simps) simp
      from "1.IH"(2) [OF False f] obtain gaps where
        l: "length gaps = Suc (length (wrap_loop w started (snd (wrap_step w started chunks))))" and
        s: "list_all (list_all isspace) gaps" and
        v: "weave gaps (wrap_loop w started (snd (wrap_step w started chunks))) =
             concat (snd (wrap_step w started chunks))"
        by blast
      from l obtain g0 gs where gaps: "gaps = g0 # gs" by (cases gaps) auto
      have "length (((g1 @ g2) @ g0) # gs) = Suc (length (wrap_loop w started chunks)) \<and>
          list_all (list_all isspace) (((g1 @ g2) @ g0) # gs) \<and>
          weave (((g1 @ g2) @ g0) # gs) (wrap_loop w started chunks) = concat chunks"
        using l s v g c f by (simp add: e gaps weave_prepend)
      then show ?thesis by blast
    qed
  qed
qed

lemma wrapper_wrap_weave:
  "\<exists>gaps. length gaps = Suc (length (wrapper_wrap L s)) \<and>
          list_all (list_all isspace) gaps \<and>
          weave gaps (wrapper_wrap L s) = expandtabs 8 s"
  using wrap_loop_weave [of 90 False "split_chunks L s"]
  by (simp add: wrapper_wrap_def split_chunks_def concat_filter_nonempty concat_wordsep_split)

lemma strip_parts:
  "\<exists>a b. line = a @ strip line @ b \<and> list_all isspace a \<and> list_all isspace b"
proof -
  define d where "d = dropWhile isspace line"
  have 1: "line = takeWhile isspace line @ d"
    by (simp add: d_def)
  have "rev d = takeWhile isspace (rev d) @ dropWhile isspace (rev d)"
    by simp
  then have "rev (rev d) = rev (takeWhile isspace (rev d) @ dropWhile isspace (rev d))"
    by simp
  then have 2: "d = strip line @ rev (takeWhile isspace (rev d))"
    by (simp add: strip_def rstrip_def lstrip_def d_def del: takeWhile_dropWhile_id)
  have "list_all isspace (takeWhile isspace line)"
    by (simp add: list_all_iff) (meson set_takeWhileD)
  moreover have "list_all isspace (rev (takeWhile isspace (rev d)))"
    by (simp add: list_all_iff) (meson set_takeWhileD)
  moreover have "line = takeWhile isspace line @ strip line @ rev (takeWhile isspace (rev d))"
    using 1 2 by simp
  ultimately show ?thesis by blast
qed

lemma after_break_parts:
  assumes "d \<noteq> []" and "linebreak (hd d)"
  shows "\<exists>t. d = t @ after_break d \<and> terminator t"
proof -
  obtain a r where d: "d = a # r" using assms(1) by (cases d) auto
  show ?thesis
  proof (cases r)
    case Nil
    have "d = [a] @ after_break d \<and> terminator [a]"
      using assms(2) by (simp add: d Nil terminator_def)
    then show ?thesis by blast
  next
    case (Cons b r')
    show ?thesis
    proof (cases "a = 13 \<and> b = 10")
      case True
      have "d = [13, 10] @ after_break d \<and> terminator [13, 10]"
        using True by (simp add: d Cons terminator_def)
      then show ?thesis by blast
    next
      case False
      have "d = [a] @ after_break d \<and> terminator [a]"
        using False assms(2) by (auto simp: d Cons terminator_def)
      then show ?thesis by blast
    qed
  qed
qed

lemma splitlines_parts:
  "\<exists>seps. length seps = length (splitlines s) \<and> list_all terminator (butlast seps) \<and>
          (seps = [] \<or> last seps = [] \<or> terminator (last seps)) \<and>
          concat (map2 (@) (splitlines s) seps) = s"
proof (induction s rule: splitlines.induct)
  case (1 s)
  show ?case
  proof (cases "s = []")
    case True
    have "length ([]::ustr list) = length (splitlines s) \<and> list_all terminator (butlast []) \<and>
          ([] = ([]::ustr list) \<or> last [] = ([]::ustr) \<or> terminator (last [])) \<and>
          concat (map2 (@) (splitlines s) []) = s"
      using True by (simp add: splitlines.simps)
    then show ?thesis by blast
  next
    case False
    define l where "l = takeWhile (\<lambda>c. \<not> linebreak c) s"
    define d where "d = dropWhile (\<lambda>c. \<not> linebreak c) s"
    have sl: "splitlines s = l # splitlines (after_break d)"
      using False by (subst splitlines.simps) (simp add: l_def d_def)
    have s: "s = l @ d"
      by (simp add: l_def d_def)
    from "1.IH" [OF False] obtain seps where
      a: "length seps = length (splitlines (after_break d))" and
      b: "list_all terminator (butlast seps)" and
      c: "seps = [] \<or> last seps = [] \<or> terminator (last seps)" and
      e: "concat (map2 (@) (splitlines (after_break d)) seps) = after_break d"
      unfolding d_def by blast
    show ?thesis
    proof (cases "d = []")
      case True
      then have n: "splitlines (after_break d) = []"
        by (simp add: splitlines.simps)
      have "length [[]::ustr] = length (splitlines s) \<and> list_all terminator (butlast [[]]) \<and>
          ([[]] = ([]::ustr list) \<or> last [[]] = ([]::ustr) \<or> terminator (last [[]])) \<and>
          concat (map2 (@) (splitlines s) [[]]) = s"
        unfolding sl n using True s by simp
      then show ?thesis by blast
    next
      case ne: False
      then have "linebreak (hd d)"
        unfolding d_def using hd_dropWhile [of "\<lambda>c. \<not> linebreak c" s] by auto
      from after_break_parts [OF ne this] obtain t where
        t: "d = t @ after_break d" "terminator t" by blast
      have 1: "length (t # seps) = length (l # splitlines (after_break d))"
        using a by simp
      have 2: "list_all terminator (butlast (t # seps))"
        using b t(2) by simp
      have 3: "last (t # seps) = [] \<or> terminator (last (t # seps))"
        using c t(2) by auto
      have "concat (map2 (@) (l # splitlines (after_break d)) (t # seps)) =
              l @ t @ after_break d"
        by (simp add: e)
      also have "\<dots> = s"
        unfolding s using t(1) by simp
      finally have 4: "concat (map2 (@) (l # splitlines (after_break d)) (t # seps)) = s" .
      have "length (t # seps) = length (splitlines s) \<and>
          list_all terminator (butlast (t # seps)) \<and>
          (t # seps = [] \<or> last (t # seps) = [] \<or> terminator (last (t # seps))) \<and>
          concat (map2 (@) (splitlines s) (t # seps)) = s"
        unfolding sl using 1 2 3 4 by blast
      then show ?thesis by blast
    qed
  qed
qed

lemma splitlines_no_break: "list_all (list_all (\<lambda>c. \<not> linebreak c)) (splitlines s)"
proof (induction s rule: splitlines.induct)
  case (1 s)
  show ?case
  proof (cases "s = []")
    case True
    then show ?thesis by (simp add: splitlines.simps)
  next
    case False
    have "list_all (\<lambda>c. \<not> linebreak c) (takeWhile (\<lambda>c. \<not> linebreak c) s)"
      by (auto simp: list_all_iff dest: set_takeWhileD)
    then show ?thesis
      using "1.IH" [OF False] False by (subst splitlines.simps) simp
  qed
qed

text \<open>
  Claim C1, as amended. The first loop loses whitespace only, and only in these places.
  The body is its lines (those of \<open>splitlines\<close>, none of which has a line boundary in it),
  each followed by its line terminator, the last one possibly by none. A line is its
  stripped content between two runs of whitespace. A line whose stripped content is
  empty gives one empty line. A heading gives its stripped content, unchanged. Any other
  line gives the lines of the wrapper, and these lines, put back between gaps of
  whitespace (one before the first line, one between two lines, one after the last), are
  exactly the stripped content with its tabs expanded: no character inside a wrapped
  line is dropped, added or moved, and what stood between two wrapped lines was
  whitespace. So the concatenated lines have the characters of the body that are not
  whitespace, all of them and in their order.
\<close>

theorem first_loop_keeps_text:
  "wrapped_lines L body = concat (map (wrapped_line L) (splitlines body)) \<and>
   (\<exists>seps. length seps = length (splitlines body) \<and> list_all terminator (butlast seps) \<and>
      (seps = [] \<or> last seps = [] \<or> terminator (last seps)) \<and>
      concat (map2 (@) (splitlines body) seps) = body) \<and>
   list_all (list_all (\<lambda>c. \<not> linebreak c)) (splitlines body) \<and>
   (\<exists>a b. line = a @ strip line @ b \<and> list_all isspace a \<and> list_all isspace b) \<and>
   (strip line1 = [] \<longrightarrow> wrapped_line L line1 = [[]]) \<and>
   (strip line2 \<noteq> [] \<and> looks_like_heading L (strip line2) \<longrightarrow>
      wrapped_line L line2 = [strip line2]) \<and>
   (strip line3 \<noteq> [] \<and> \<not> looks_like_heading L (strip line3) \<longrightarrow>
      (\<exists>gaps. length gaps = Suc (length (wrapped_line L line3)) \<and>
         list_all (list_all isspace) gaps \<and>
         weave gaps (wrapped_line L line3) = expandtabs 8 (strip line3))) \<and>
   visible (concat (wrapped_lines L body)) = visible body"
  using splitlines_parts [of body] splitlines_no_break [of body] strip_parts [of line]
    wrapper_wrap_weave [of L "strip line3"] visible_wrapped_lines [of L body]
  by (simp add: wrapped_lines_def wrapped_line_def)

theorem first_loop_keeps_text_witness:
  "strip (u '' '') = [] \<and> wrapped_line ascii_pylib (u '' '') = [[]] \<and>
   strip (u '' Title:'') \<noteq> [] \<and> looks_like_heading ascii_pylib (strip (u '' Title:'')) \<and>
   wrapped_line ascii_pylib (u '' Title:'') = [strip (u '' Title:'')] \<and>
   strip (u ''the cat'') \<noteq> [] \<and> \<not> looks_like_heading ascii_pylib (strip (u ''the cat'')) \<and>
   (\<exists>gaps. length gaps = Suc (length (wrapped_line ascii_pylib (u ''the cat''))) \<and>
      list_all (list_all isspace) gaps \<and>
      weave gaps (wrapped_line ascii_pylib (u ''the cat'')) = expandtabs 8 (strip (u ''the cat'')))"
proof -
  note T = first_loop_keeps_text [of ascii_pylib "[]" "[]" "u '' ''" "u '' Title:''" "u ''the cat''"]
  have a: "strip (u '' '') = []"
    by (simp add: str_eval)
  have b: "strip (u '' Title:'') \<noteq> [] \<and> looks_like_heading ascii_pylib (strip (u '' Title:''))"
    by (simp add: looks_like_heading_def str_eval)
  have c: "strip (u ''the cat'') \<noteq> [] \<and> \<not> looks_like_heading ascii_pylib (strip (u ''the cat''))"
    by (simp add: looks_like_heading_def str_eval lib_eval)
  from T a b c show ?thesis
    by blast
qed

text \<open>
  The claim as it was worded (nothing is lost but trailing whitespace) fails for a line
  that starts with whitespace: the body of two spaces and \<open>Title:\<close> has no trailing
  whitespace and is one line, and \<open>wrapped_lines\<close> has \<open>Title:\<close> for it, without the
  two spaces.
\<close>

theorem leading_whitespace_counterexample:
  "splitlines (u ''  Title:'') = [u ''  Title:''] \<and>
   rstrip (u ''  Title:'') = u ''  Title:'' \<and>
   wrapped_lines ascii_pylib (u ''  Title:'') = [u ''Title:''] \<and>
   concat [u ''Title:''] \<noteq> u ''  Title:''"
  by (simp add: wrapped_lines_def wrapped_line_def looks_like_heading_def splitlines.simps
        linebreak_def str_eval)

end
